theory Spec2Isabelle
  imports Main "HOL-Library.Word" "HOL-Library.Monad_Syntax"
begin

unbundle bit_operations_syntax

section \<open>The snowflake generator of pkg/snowflake/snowflake.go\<close>

text \<open>
  Go's \<open>int64\<close> is a 64-bit word: \<open>+\<close> and \<open>-\<close> wrap, \<open><<\<close> is \<open>push_bit\<close> and
  drops the bits shifted out, \<open>|\<close> is \<open>OR\<close>, and the comparisons \<open><\<close>, \<open><=\<close>, \<open>>\<close>
  of the source are the signed ones (\<open><s\<close>, \<open>\<le>s\<close>).
\<close>

type_synonym int64 = "64 word"

subsection \<open>Constants (lines 10-17, 37, 40)\<close>

definition timestampBits :: nat where
  "timestampBits = 41"

definition machineIDBits :: nat where
  "machineIDBits = 10"

definition sequenceBits :: nat where
  "sequenceBits = 12"

definition maxMachineID :: int64 where
  "maxMachineID = push_bit machineIDBits 1 - 1"

definition maxSequence :: int64 where
  "maxSequence = push_bit sequenceBits 1 - 1"

definition defaultStartTime :: int64 where
  "defaultStartTime = 1672502400000"

definition timeLayout :: string where
  "timeLayout = ''2006-01-02''"

subsection \<open>Data (lines 20-34)\<close>

record Config =
  MachineID :: int64
  StartTime :: string

text \<open>
  The struct \<open>Snowflake\<close>. Its mutex \<open>mu\<close> has no field here: \<open>nextID\<close> holds it from
  its first statement to its return, so calls on one instance run one after another,
  which is what passing the record from one call to the next expresses.
\<close>

record Snowflake =
  startTime :: int64
  machineID :: int64
  lastTimestamp :: int64
  sequence :: int64

text \<open>
  Every \<open>panic\<close> of the package is a value of \<open>error\<close>. The source panics with a
  message string; the constructors name the four messages of \<open>Init\<close> and the one of
  \<open>GetID\<close>.
\<close>

datatype error =
  InvalidMachineId
  | TimezoneLoadFailed
  | InvalidStartTime
  | StartTimeInFuture
  | NotInitialized

text \<open>
  The standard library that \<open>Init\<close> calls is a parameter of the model:
  \<open>LoadLocation name\<close> is \<open>time.LoadLocation\<close> (\<open>None\<close> when it returns an error) and
  \<open>ParseInLocation layout value loc\<close> is \<open>time.ParseInLocation\<close> followed by
  \<open>UnixMilli\<close> (\<open>None\<close> when parsing returns an error).
\<close>

datatype location = Location string

record Env =
  LoadLocation :: "string \<Rightarrow> location option"
  ParseInLocation :: "string \<Rightarrow> string \<Rightarrow> location \<Rightarrow> int64 option"

subsection \<open>Init (lines 44-83)\<close>

text \<open>
  Step 2 of \<open>Init\<close> (lines 50-68): the value of the local variable \<open>startTime\<close> when
  line 70 is reached, or the panic that ends the call before. An empty string takes the
  default without loading the time zone; otherwise the zone is loaded first and the
  string is parsed only when that has succeeded.
\<close>

definition resolveStartTime :: "Env \<Rightarrow> Config \<Rightarrow> error + int64" where
  "resolveStartTime env config =
    (if StartTime config = [] then Inr defaultStartTime
     else
       (case LoadLocation env ''Asia/Shanghai'' of
          None \<Rightarrow> Inl TimezoneLoadFailed
        | Some loc \<Rightarrow>
            (case ParseInLocation env timeLayout (StartTime config) loc of
               None \<Rightarrow> Inl InvalidStartTime
             | Some t \<Rightarrow> Inr t)))"

text \<open>
  \<open>Init env now config g\<close>: \<open>g\<close> is the package variable \<open>instance\<close> before the call
  (\<open>None\<close> is \<open>nil\<close>) and \<open>now\<close> the value that \<open>time.Now().UnixMilli()\<close> returns at
  line 71. The result is the panic, if any, and the package variable after the call.
  A panic leaves the function before the assignment of line 77, so the variable is then
  the one before the call.
\<close>

definition Init :: "Env \<Rightarrow> int64 \<Rightarrow> Config \<Rightarrow> Snowflake option \<Rightarrow> error option \<times> Snowflake option" where
  "Init env now config g =
    (if MachineID config <s 0 \<or> maxMachineID <s MachineID config then (Some InvalidMachineId, g)
     else
       (case resolveStartTime env config of
          Inl e \<Rightarrow> (Some e, g)
        | Inr start \<Rightarrow>
            if now <s start then (Some StartTimeInFuture, g)
            else (None, Some \<lparr>startTime = start, machineID = MachineID config,
                              lastTimestamp = - 1, sequence = 0\<rparr>)))"

subsection \<open>nextID (lines 94-130)\<close>

text \<open>
  The wall clock is the list of the values that the successive calls of
  \<open>time.Now().UnixMilli()\<close> return, first call first; reading the clock takes the head.
  A call that needs a reading when the list is used up has not returned within the
  readings given: its result is \<open>None\<close>.

  \<open>spin l now clk\<close> is the loop \<open>for now <= s.lastTimestamp { now = time.Now().UnixMilli() }\<close>
  of lines 103-105 and 113-115, with \<open>l\<close> the value of \<open>s.lastTimestamp\<close>.
\<close>

fun spin :: "int64 \<Rightarrow> int64 \<Rightarrow> int64 list \<Rightarrow> (int64 \<times> int64 list) option" where
  "spin l now [] = (if now \<le>s l then None else Some (now, []))"
| "spin l now (t # clk) = (if now \<le>s l then spin l t clk else Some (now, t # clk))"

definition readClock :: "int64 list \<Rightarrow> (int64 \<times> int64 list) option" where
  "readClock clk = (case clk of [] \<Rightarrow> None | t # clk' \<Rightarrow> Some (t, clk'))"

definition nextID :: "Snowflake \<Rightarrow> int64 list \<Rightarrow> (int64 \<times> Snowflake \<times> int64 list) option" where
  "nextID s clk = do {
     (now0, clk0) \<leftarrow> readClock clk;
     (now1, clk1) \<leftarrow>
       (if now0 <s lastTimestamp s then spin (lastTimestamp s) now0 clk0
        else Some (now0, clk0));
     (now2, sq, clk2) \<leftarrow>
       (if now1 = lastTimestamp s then
          (if maxSequence <s sequence s + 1 then do {
             (now', clk') \<leftarrow> spin (lastTimestamp s) now1 clk1;
             Some (now', 0, clk')
           }
           else Some (now1, sequence s + 1, clk1))
        else Some (now1, 0, clk1));
     let s' = s\<lparr>lastTimestamp := now2, sequence := sq\<rparr>;
     Some (push_bit (machineIDBits + sequenceBits) (now2 - startTime s')
             OR push_bit sequenceBits (machineID s')
             OR sequence s',
           s', clk2)
   }"

subsection \<open>GetID (lines 86-91)\<close>

text \<open>
  \<open>GetID g clk\<close>: the panic or the identifier, the package variable and the clock after
  the call; \<open>None\<close> when \<open>nextID\<close> has not returned within the readings of \<open>clk\<close>.
\<close>

definition GetID :: "Snowflake option \<Rightarrow> int64 list \<Rightarrow> ((error + int64) \<times> Snowflake option \<times> int64 list) option" where
  "GetID g clk =
    (case g of
       None \<Rightarrow> Some (Inl NotInitialized, g, clk)
     | Some s \<Rightarrow>
         (case nextID s clk of
            None \<Rightarrow> None
          | Some (i, s', clk') \<Rightarrow> Some (Inr i, Some s', clk')))"

subsection \<open>Sequential callers\<close>

text \<open>
  \<open>calls n s clk\<close> is one caller making \<open>n\<close> calls of \<open>nextID\<close> on the instance, each
  after the one before has returned: the identifiers in the order of the calls, each
  with the instance as its call left it, then the instance and the clock after the last
  call. It is \<open>None\<close> when one of the calls has not returned.
\<close>

fun calls :: "nat \<Rightarrow> Snowflake \<Rightarrow> int64 list \<Rightarrow> ((int64 \<times> Snowflake) list \<times> Snowflake \<times> int64 list) option" where
  "calls 0 s clk = Some ([], s, clk)"
| "calls (Suc n) s clk =
    (case nextID s clk of
       None \<Rightarrow> None
     | Some (i, s', clk') \<Rightarrow>
         (case calls n s' clk' of
            None \<Rightarrow> None
          | Some (rs, s'', clk'') \<Rightarrow> Some ((i, s') # rs, s'', clk'')))"

subsection \<open>The vocabulary of the properties\<close>

text \<open>
  The bit layout as the specification writes it:
  \<open>(timestamp_offset << 22) | (machineId << 12) | sequence\<close>.
\<close>

definition specLayout :: "int64 \<Rightarrow> int64 \<Rightarrow> int64 \<Rightarrow> int64" where
  "specLayout offset machineId sq = push_bit 22 offset OR push_bit 12 machineId OR sq"

text \<open>
  The ranges of the two small fields: what \<open>Init\<close> checks of the machine ID and what
  \<open>nextID\<close> keeps of the sequence.
\<close>

definition fieldsInRange :: "Snowflake \<Rightarrow> bool" where
  "fieldsInRange s \<longleftrightarrow>
     0 \<le>s machineID s \<and> machineID s \<le>s 1023 \<and> 0 \<le>s sequence s \<and> sequence s \<le>s 4095"

text \<open>
  The lexicographic order on the pair (lastTimestamp, sequence) of two states of the
  instance.
\<close>

definition pairLess :: "Snowflake \<Rightarrow> Snowflake \<Rightarrow> bool" where
  "pairLess s s' \<longleftrightarrow>
     lastTimestamp s <s lastTimestamp s'
     \<or> (lastTimestamp s = lastTimestamp s' \<and> sequence s <s sequence s')"

text \<open>
  \<open>timestampOffset s t\<close> is the distance, as an integer, from the instance's epoch to
  the reading \<open>t\<close>; the reading is within the lifetime of the 41-bit field when the
  distance is in \<open>[0, 2^41)\<close>.
\<close>

definition timestampOffset :: "Snowflake \<Rightarrow> int64 \<Rightarrow> int" where
  "timestampOffset s t = sint t - sint (startTime s)"

definition inLifetime :: "Snowflake \<Rightarrow> int64 \<Rightarrow> bool" where
  "inLifetime s t \<longleftrightarrow> 0 \<le> timestampOffset s t \<and> timestampOffset s t < 2 ^ timestampBits"

text \<open>
  The integer that the three fields of a state denote when nothing is cut off by the
  64 bits: offset, machine ID and sequence at their positions.
\<close>

definition stamp :: "Snowflake \<Rightarrow> int" where
  "stamp s = timestampOffset s (lastTimestamp s) * 2 ^ 22 + sint (machineID s) * 2 ^ 12 + sint (sequence s)"

text \<open>
  The wait for the end of a clock rollback as the specification words it: re-read the
  clock until the reading reaches or exceeds the last timestamp.
\<close>

fun specRollbackWait :: "int64 \<Rightarrow> int64 \<Rightarrow> int64 list \<Rightarrow> (int64 \<times> int64 list) option" where
  "specRollbackWait l now [] = (if now <s l then None else Some (now, []))"
| "specRollbackWait l now (t # clk) = (if now <s l then specRollbackWait l t clk else Some (now, t # clk))"

text \<open>
  What a call waiting for the clock to pass \<open>l\<close> finds in the readings left: the first
  reading strictly after \<open>l\<close> and the readings after it.
\<close>

definition firstAfter :: "int64 \<Rightarrow> int64 list \<Rightarrow> (int64 \<times> int64 list) option" where
  "firstAfter l clk = (case dropWhile (\<lambda>t. t \<le>s l) clk of [] \<Rightarrow> None | t # clk' \<Rightarrow> Some (t, clk'))"

section \<open>Auxiliary facts\<close>

subsection \<open>The constants, the wait loop and the branches of nextID\<close>

lemma maxMachineID_eq: "maxMachineID = 1023"
  by (simp add: maxMachineID_def machineIDBits_def)

lemma maxSequence_eq: "maxSequence = 4095"
  by (simp add: maxSequence_def sequenceBits_def)

lemma firstAfter_Nil: "firstAfter l [] = None"
  by (simp add: firstAfter_def)

lemma firstAfter_Cons:
  "firstAfter l (x # clk) = (if x \<le>s l then firstAfter l clk else Some (x, clk))"
  by (simp add: firstAfter_def)

lemma firstAfter_Some:
  "firstAfter l clk = Some (t, clk') \<Longrightarrow>
     l <s t \<and> (\<exists>pre. clk = pre @ t # clk' \<and> (\<forall>x\<in>set pre. x \<le>s l))"
proof (induction clk)
  case Nil
  then show ?case by (simp add: firstAfter_Nil)
next
  case (Cons x clk)
  show ?case
  proof (cases "x \<le>s l")
    case True
    with Cons.prems have "firstAfter l clk = Some (t, clk')"
      by (simp add: firstAfter_Cons)
    from Cons.IH [OF this] obtain pre where
      "l <s t" "clk = pre @ t # clk'" "\<forall>y\<in>set pre. y \<le>s l"
      by blast
    with True have "x # clk = (x # pre) @ t # clk' \<and> (\<forall>y\<in>set (x # pre). y \<le>s l)"
      by simp
    with \<open>l <s t\<close> show ?thesis by blast
  next
    case False
    with Cons.prems have "t = x" "clk' = clk"
      by (simp_all add: firstAfter_Cons)
    with False have "x # clk = [] @ t # clk' \<and> (\<forall>y\<in>set []. y \<le>s l)" "l <s t"
      by (simp_all add: word_sless_alt word_sle_eq)
    then show ?thesis by blast
  qed
qed

lemma firstAfter_None:
  "firstAfter l clk = None \<longleftrightarrow> (\<forall>x\<in>set clk. x \<le>s l)"
  by (induction clk) (simp_all add: firstAfter_Nil firstAfter_Cons)

lemma spin_firstAfter:
  "spin l now clk = (if now \<le>s l then firstAfter l clk else Some (now, clk))"
  by (induction clk arbitrary: now) (simp_all add: firstAfter_def)

lemma nextID_Nil: "nextID s [] = None"
  by (simp add: nextID_def readClock_def)

lemma nextID_fresh:
  "lastTimestamp s <s now \<Longrightarrow>
   nextID s (now # clk) =
     Some (specLayout (now - startTime s) (machineID s) 0, s\<lparr>lastTimestamp := now, sequence := 0\<rparr>, clk)"
  by (auto simp add: nextID_def readClock_def specLayout_def machineIDBits_def sequenceBits_def)

lemma nextID_same:
  "now = lastTimestamp s \<Longrightarrow> \<not> 4095 <s sequence s + 1 \<Longrightarrow>
   nextID s (now # clk) =
     Some (specLayout (now - startTime s) (machineID s) (sequence s + 1),
           s\<lparr>lastTimestamp := now, sequence := sequence s + 1\<rparr>, clk)"
  by (simp add: nextID_def readClock_def specLayout_def machineIDBits_def sequenceBits_def maxSequence_eq)

lemma nextID_wait:
  "now <s lastTimestamp s \<or> (now = lastTimestamp s \<and> 4095 <s sequence s + 1) \<Longrightarrow>
   nextID s (now # clk) =
     (case firstAfter (lastTimestamp s) clk of
        None \<Rightarrow> None
      | Some (t, clk') \<Rightarrow>
          Some (specLayout (t - startTime s) (machineID s) 0, s\<lparr>lastTimestamp := t, sequence := 0\<rparr>, clk'))"
  by (auto simp add: nextID_def readClock_def specLayout_def machineIDBits_def sequenceBits_def
        maxSequence_eq spin_firstAfter
      split: option.splits dest: firstAfter_Some)

lemma nextID_exhausted:
  assumes "sequence s = 4095"
  shows "nextID s clk =
           (case firstAfter (lastTimestamp s) clk of
              None \<Rightarrow> None
            | Some (t, clk') \<Rightarrow>
                Some (specLayout (t - startTime s) (machineID s) 0,
                      s\<lparr>lastTimestamp := t, sequence := 0\<rparr>, clk'))"
proof (cases clk)
  case Nil
  then show ?thesis by (simp add: nextID_Nil firstAfter_Nil)
next
  case (Cons now rest)
  from assms have full: "(4095 :: int64) <s sequence s + 1"
    by (simp add: word_sless_alt)
  show ?thesis
  proof (cases "lastTimestamp s <s now")
    case True
    then have "\<not> now \<le>s lastTimestamp s" by (simp add: signed.not_le)
    with True Cons show ?thesis
      by (simp add: nextID_fresh firstAfter_Cons)
  next
    case False
    then have le: "now \<le>s lastTimestamp s" by (simp add: signed.not_less)
    with full have "now <s lastTimestamp s \<or> now = lastTimestamp s \<and> 4095 <s sequence s + 1"
      by (auto simp add: signed.le_less)
    with le Cons show ?thesis
      by (simp add: nextID_wait firstAfter_Cons)
  qed
qed

lemma nextID_cases:
  assumes "nextID s clk = Some (i, s', clk')"
  shows "\<exists>now rest. clk = now # rest \<and>
    ((lastTimestamp s <s now \<and> s' = s\<lparr>lastTimestamp := now, sequence := 0\<rparr> \<and> clk' = rest)
     \<or> (now = lastTimestamp s \<and> \<not> 4095 <s sequence s + 1
         \<and> s' = s\<lparr>lastTimestamp := now, sequence := sequence s + 1\<rparr> \<and> clk' = rest)
     \<or> ((now <s lastTimestamp s \<or> now = lastTimestamp s \<and> 4095 <s sequence s + 1)
         \<and> (\<exists>t. firstAfter (lastTimestamp s) rest = Some (t, clk')
                \<and> s' = s\<lparr>lastTimestamp := t, sequence := 0\<rparr>)))
    \<and> i = specLayout (lastTimestamp s' - startTime s) (machineID s) (sequence s')"
proof (cases clk)
  case Nil
  with assms show ?thesis by (simp add: nextID_Nil)
next
  case (Cons now rest)
  consider (fresh) "lastTimestamp s <s now"
    | (same) "now = lastTimestamp s" "\<not> 4095 <s sequence s + 1"
    | (wait) "now <s lastTimestamp s \<or> now = lastTimestamp s \<and> 4095 <s sequence s + 1"
    using signed.less_linear [of now "lastTimestamp s"] by blast
  then show ?thesis
  proof cases
    case fresh
    with assms Cons show ?thesis by (auto simp add: nextID_fresh)
  next
    case same
    with assms Cons show ?thesis by (auto simp add: nextID_same)
  next
    case wait
    with assms Cons show ?thesis
      by (auto simp add: nextID_wait split: option.splits)
  qed
qed

lemma nextID_returns:
  assumes "\<exists>t\<in>set clk. lastTimestamp s <s t"
  shows "\<exists>i s' clk'. nextID s clk = Some (i, s', clk')"
proof (cases clk)
  case Nil
  with assms show ?thesis by simp
next
  case (Cons now rest)
  consider (fresh) "lastTimestamp s <s now"
    | (same) "now = lastTimestamp s" "\<not> 4095 <s sequence s + 1"
    | (wait) "now <s lastTimestamp s \<or> now = lastTimestamp s \<and> 4095 <s sequence s + 1"
    using signed.less_linear [of now "lastTimestamp s"] by blast
  then show ?thesis
  proof cases
    case fresh
    with Cons show ?thesis by (simp add: nextID_fresh)
  next
    case same
    with Cons show ?thesis by (simp add: nextID_same)
  next
    case wait
    then have "\<not> lastTimestamp s <s now" by auto
    with assms Cons have "\<exists>t\<in>set rest. \<not> t \<le>s lastTimestamp s"
      by (auto simp add: signed.not_le)
    then have "firstAfter (lastTimestamp s) rest \<noteq> None"
      by (simp add: firstAfter_None)
    with wait Cons show ?thesis
      by (auto simp add: nextID_wait split: option.splits)
  qed
qed

subsection \<open>The bit layout as arithmetic\<close>

lemma take_bit_small:
  fixes w :: int64
  assumes "0 \<le> sint w" "sint w < 2 ^ n"
  shows "take_bit n w = w"
proof -
  have "take_bit n w = take_bit n (word_of_int (sint w) :: int64)"
    by simp
  also have "\<dots> = word_of_int (take_bit n (sint w))"
    by (rule take_bit_of_int)
  also have "take_bit n (sint w) = sint w"
    using assms by (rule take_bit_int_eq_self)
  finally show ?thesis by simp
qed

lemma seq_take_bit:
  fixes q :: int64
  assumes "0 \<le>s q" "q \<le>s 4095"
  shows "take_bit 12 q = q"
  using assms by (intro take_bit_small) (simp_all add: word_sle_eq)

lemma mid_take_bit:
  fixes m :: int64
  assumes "0 \<le>s m" "m \<le>s 1023"
  shows "take_bit 10 m = m"
  using assms by (intro take_bit_small) (simp_all add: word_sle_eq)

lemma layout_low:
  fixes off m q :: int64
  shows "take_bit 12 (specLayout off (take_bit 10 m) (take_bit 12 q)) = take_bit 12 q"
  unfolding specLayout_def
  by (rule bit_eqI) (auto simp add: bit_simps)

lemma layout_mid:
  fixes off m q :: int64
  shows "take_bit 10 (drop_bit 12 (specLayout off (take_bit 10 m) (take_bit 12 q))) = take_bit 10 m"
  unfolding specLayout_def
  by (rule bit_eqI) (auto simp add: bit_simps)

lemma layout_mid_signed:
  fixes off m q :: int64
  shows "take_bit 10 (signed_drop_bit 12 (specLayout off (take_bit 10 m) (take_bit 12 q))) = take_bit 10 m"
  unfolding specLayout_def
  by (rule bit_eqI) (auto simp add: bit_simps bit_signed_drop_bit_iff)

lemma layout_sum:
  fixes off m q :: int64
  shows "specLayout off (take_bit 10 m) (take_bit 12 q) = push_bit 22 off + push_bit 12 (take_bit 10 m) + take_bit 12 q"
proof -
  have "push_bit 22 off + push_bit 12 (take_bit 10 m) = push_bit 22 off OR push_bit 12 (take_bit 10 m)"
    by (rule disjunctive_add) (auto simp add: bit_simps)
  moreover have "(push_bit 22 off OR push_bit 12 (take_bit 10 m)) + take_bit 12 q
      = (push_bit 22 off OR push_bit 12 (take_bit 10 m)) OR take_bit 12 q"
    by (rule disjunctive_add) (auto simp add: bit_simps)
  ultimately show ?thesis
    by (simp add: specLayout_def or.assoc)
qed

lemma layout_sint:
  fixes t st m q :: int64
  assumes m: "0 \<le>s m" "m \<le>s 1023"
    and q: "0 \<le>s q" "q \<le>s 4095"
    and lo: "0 \<le> sint t - sint st"
    and hi: "sint t - sint st < 2 ^ 41"
  shows "sint (specLayout (t - st) m q) = (sint t - sint st) * 2 ^ 22 + sint m * 2 ^ 12 + sint q"
proof -
  let ?k = "(sint t - sint st) * 2 ^ 22 + sint m * 2 ^ 12 + sint q"
  from m have mi: "0 \<le> sint m" "sint m \<le> 1023" by (simp_all add: word_sle_eq)
  from q have qi: "0 \<le> sint q" "sint q \<le> 4095" by (simp_all add: word_sle_eq)
  have "specLayout (t - st) m q = push_bit 22 (t - st) + push_bit 12 m + q"
    using layout_sum [of "t - st" m q] by (simp only: mid_take_bit [OF m] seq_take_bit [OF q])
  also have "\<dots> = (word_of_int (sint t) - word_of_int (sint st)) * 2 ^ 22 + word_of_int (sint m) * 2 ^ 12 + word_of_int (sint q)"
    by (simp add: push_bit_eq_mult)
  also have "\<dots> = word_of_int ?k"
    by (simp only: of_int_add of_int_mult of_int_diff of_int_power of_int_numeral)
  finally have eq: "specLayout (t - st) m q = word_of_int ?k" .
  have "0 \<le> ?k" using lo mi qi by simp
  moreover have "?k < 2 ^ 63"
  proof -
    from hi have "sint t - sint st \<le> 2 ^ 41 - 1" by simp
    then have "(sint t - sint st) * 2 ^ 22 \<le> (2 ^ 41 - 1) * 2 ^ 22"
      by (rule mult_right_mono) simp
    with mi qi show ?thesis by simp
  qed
  ultimately have self: "signed_take_bit 63 ?k = ?k"
    by (intro signed_take_bit_int_eq_self) simp_all
  have "sint (word_of_int ?k :: int64) = signed_take_bit 63 ?k"
    by (subst sint_sbintrunc') simp
  with eq self show ?thesis
    by (simp only:)
qed

lemma and_4095: "w AND 4095 = take_bit 12 (w :: int64)"
  by (simp add: take_bit_eq_mask mask_eq_exp_minus_1)

lemma and_1023: "w AND 1023 = take_bit 10 (w :: int64)"
  by (simp add: take_bit_eq_mask mask_eq_exp_minus_1)

lemma layout_recover:
  fixes off m q :: int64
  assumes "0 \<le>s m" "m \<le>s 1023" "0 \<le>s q" "q \<le>s 4095"
  shows "specLayout off m q AND 4095 = q"
    and "drop_bit 12 (specLayout off m q) AND 1023 = m"
    and "signed_drop_bit 12 (specLayout off m q) AND 1023 = m"
proof -
  have m: "take_bit 10 m = m" using assms(1,2) by (rule mid_take_bit)
  have q: "take_bit 12 q = q" using assms(3,4) by (rule seq_take_bit)
  from layout_low [of off m q] show "specLayout off m q AND 4095 = q"
    by (simp only: and_4095 m q)
  from layout_mid [of off m q] show "drop_bit 12 (specLayout off m q) AND 1023 = m"
    by (simp only: and_1023 m q)
  from layout_mid_signed [of off m q] show "signed_drop_bit 12 (specLayout off m q) AND 1023 = m"
    by (simp only: and_1023 m q)
qed

lemma sint_succ:
  fixes q :: int64
  assumes "0 \<le>s q" "q \<le>s 4095"
  shows "sint (q + 1) = sint q + 1"
proof -
  from assms have "0 \<le> sint q" "sint q \<le> 4095" by (simp_all add: word_sle_eq)
  then have "signed_take_bit 63 (sint q + 1) = sint q + 1"
    by (intro signed_take_bit_int_eq_self) simp_all
  then show ?thesis by (simp add: sint_word_add)
qed

lemma sequence_full_iff:
  assumes "fieldsInRange s"
  shows "4095 <s sequence s + 1 \<longleftrightarrow> sequence s = 4095"
proof -
  from assms have q: "0 \<le>s sequence s" "sequence s \<le>s 4095"
    by (simp_all add: fieldsInRange_def)
  note succ = sint_succ [OF q]
  show ?thesis
  proof
    assume "4095 <s sequence s + 1"
    with succ have "4095 \<le>s sequence s"
      by (simp add: word_sless_alt word_sle_eq)
    with q(2) show "sequence s = 4095"
      by (rule signed.order.antisym)
  next
    assume "sequence s = 4095"
    then show "4095 <s sequence s + 1"
      by (simp add: word_sless_alt)
  qed
qed

subsection \<open>One call of nextID\<close>

lemma nextID_step:
  assumes ok: "fieldsInRange s" and call: "nextID s clk = Some (i, s', clk')"
  shows "fieldsInRange s'" and "pairLess s s'"
    and "startTime s' = startTime s" and "machineID s' = machineID s"
    and "lastTimestamp s' \<in> set clk" and "set clk' \<subseteq> set clk"
    and "i = specLayout (lastTimestamp s' - startTime s') (machineID s') (sequence s')"
proof -
  from ok have q: "0 \<le>s sequence s" "sequence s \<le>s 4095"
    by (simp_all add: fieldsInRange_def)
  note succ = sint_succ [OF q]
  from nextID_cases [OF call] obtain now rest where clk: "clk = now # rest"
    and i: "i = specLayout (lastTimestamp s' - startTime s) (machineID s) (sequence s')"
    and cases: "(lastTimestamp s <s now \<and> s' = s\<lparr>lastTimestamp := now, sequence := 0\<rparr> \<and> clk' = rest)
     \<or> (now = lastTimestamp s \<and> \<not> 4095 <s sequence s + 1
         \<and> s' = s\<lparr>lastTimestamp := now, sequence := sequence s + 1\<rparr> \<and> clk' = rest)
     \<or> ((now <s lastTimestamp s \<or> now = lastTimestamp s \<and> 4095 <s sequence s + 1)
         \<and> (\<exists>t. firstAfter (lastTimestamp s) rest = Some (t, clk')
                \<and> s' = s\<lparr>lastTimestamp := t, sequence := 0\<rparr>))"
    by blast
  from cases show "startTime s' = startTime s" and "machineID s' = machineID s"
    by auto
  with i show "i = specLayout (lastTimestamp s' - startTime s') (machineID s') (sequence s')"
    by simp
  from cases ok succ show "fieldsInRange s'"
    by (auto simp add: fieldsInRange_def word_sle_eq word_sless_alt)
  from cases succ show "pairLess s s'"
    by (auto simp add: pairLess_def word_sless_alt dest: firstAfter_Some)
  from cases clk show "lastTimestamp s' \<in> set clk"
    by (auto dest: firstAfter_Some)
  from cases clk show "set clk' \<subseteq> set clk"
    by (auto dest!: firstAfter_Some)
qed

lemma pairLess_trans: "pairLess a b \<Longrightarrow> pairLess b c \<Longrightarrow> pairLess a c"
  by (auto simp add: pairLess_def word_sless_alt)

lemma pairLess_differ:
  "pairLess a b \<Longrightarrow> (lastTimestamp a, sequence a) \<noteq> (lastTimestamp b, sequence b)"
  by (auto simp add: pairLess_def)

lemma stamp_mono:
  assumes "pairLess s s'" "fieldsInRange s" "fieldsInRange s'"
    and "startTime s' = startTime s" "machineID s' = machineID s"
  shows "stamp s < stamp s'"
proof -
  from assms(2,3) have r: "0 \<le> sint (sequence s)" "sint (sequence s) \<le> 4095"
      "0 \<le> sint (sequence s')" "sint (sequence s') \<le> 4095"
    by (simp_all add: fieldsInRange_def word_sle_eq)
  from assms(1) consider "sint (lastTimestamp s) + 1 \<le> sint (lastTimestamp s')"
    | "lastTimestamp s = lastTimestamp s'" "sint (sequence s) < sint (sequence s')"
    by (auto simp add: pairLess_def word_sless_alt)
  then show ?thesis
  proof cases
    case 1
    then have "(sint (lastTimestamp s) + 1) * 2 ^ 22 \<le> sint (lastTimestamp s') * 2 ^ 22"
      by (rule mult_right_mono) simp
    with r assms(4,5) show ?thesis
      by (simp add: stamp_def timestampOffset_def algebra_simps)
  next
    case 2
    with assms(4,5) show ?thesis
      by (simp add: stamp_def timestampOffset_def)
  qed
qed

lemma id_stamp:
  assumes "fieldsInRange s" "inLifetime s (lastTimestamp s)"
  shows "sint (specLayout (lastTimestamp s - startTime s) (machineID s) (sequence s)) = stamp s"
  using assms
  by (simp add: fieldsInRange_def inLifetime_def timestampOffset_def timestampBits_def stamp_def layout_sint)

subsection \<open>Sequences of calls\<close>

lemma sorted_wrt_neq_distinct: "sorted_wrt (\<noteq>) xs \<Longrightarrow> distinct xs"
  by (induction xs) auto

lemma strict_sorted_bounded_length:
  fixes xs :: "nat list"
  assumes "sorted_wrt (<) xs" and "\<forall>x\<in>set xs. x < N"
  shows "length xs \<le> N"
proof -
  from assms(1) have "distinct xs" by (simp add: strict_sorted_iff)
  then have "length xs = card (set xs)" by (simp add: distinct_card)
  also from assms(2) have "card (set xs) \<le> card {..<N}"
    by (intro card_mono) auto
  finally show ?thesis by simp
qed

lemma calls_invariant:
  assumes "fieldsInRange s" and "calls n s clk = Some (rs, s', clk')"
  shows "fieldsInRange s' \<and> set clk' \<subseteq> set clk \<and> length rs = n
     \<and> sorted_wrt pairLess (s # map snd rs)
     \<and> (\<forall>r\<in>set rs. fieldsInRange (snd r) \<and> startTime (snd r) = startTime s
            \<and> machineID (snd r) = machineID s \<and> lastTimestamp (snd r) \<in> set clk
            \<and> fst r = specLayout (lastTimestamp (snd r) - startTime s) (machineID s) (sequence (snd r)))"
  using assms
proof (induction n arbitrary: s clk rs)
  case 0
  then show ?case by simp
next
  case (Suc n)
  from Suc.prems(2) obtain i s1 clk1 rs1 where
    first: "nextID s clk = Some (i, s1, clk1)"
    and rest: "calls n s1 clk1 = Some (rs1, s', clk')"
    and rs: "rs = (i, s1) # rs1"
    by (auto split: option.splits)
  note step = nextID_step [OF Suc.prems(1) first]
  note ih = Suc.IH [OF step(1) rest]
  from ih have sorted1: "sorted_wrt pairLess (s1 # map snd rs1)" by simp
  then have "\<forall>x\<in>set (map snd rs1). pairLess s1 x" by simp
  with step(2) have "\<forall>x\<in>set (map snd rs1). pairLess s x"
    by (blast intro: pairLess_trans)
  with step(2) sorted1 rs have sorted: "sorted_wrt pairLess (s # map snd rs)"
    by simp
  from ih step(6) have clk': "set clk' \<subseteq> set clk" by blast
  from ih rs have len: "length rs = Suc n" by simp
  have each: "fieldsInRange (snd r) \<and> startTime (snd r) = startTime s
            \<and> machineID (snd r) = machineID s \<and> lastTimestamp (snd r) \<in> set clk
            \<and> fst r = specLayout (lastTimestamp (snd r) - startTime s) (machineID s) (sequence (snd r))"
    if "r \<in> set rs" for r
  proof (cases "r = (i, s1)")
    case True
    with step show ?thesis by simp
  next
    case False
    with that rs have "r \<in> set rs1" by simp
    with ih step(3,4,6) show ?thesis by auto
  qed
  from ih sorted clk' len each show ?case by blast
qed

lemma calls_pairs_distinct:
  assumes "fieldsInRange s" and "calls n s clk = Some (rs, s', clk')"
  shows "distinct (map (\<lambda>r. (lastTimestamp (snd r), sequence (snd r))) rs)"
proof -
  from calls_invariant [OF assms] have "sorted_wrt (\<lambda>a b. pairLess (snd a) (snd b)) rs"
    by (simp add: sorted_wrt_map)
  then have "sorted_wrt (\<lambda>a b. (lastTimestamp (snd a), sequence (snd a)) \<noteq> (lastTimestamp (snd b), sequence (snd b))) rs"
    by (rule sorted_wrt_mono_rel [rotated]) (rule pairLess_differ)
  then have "sorted_wrt (\<noteq>) (map (\<lambda>r. (lastTimestamp (snd r), sequence (snd r))) rs)"
    by (simp add: sorted_wrt_map)
  then show ?thesis by (rule sorted_wrt_neq_distinct)
qed

lemma calls_ids_increase:
  assumes ok: "fieldsInRange s" and run: "calls n s clk = Some (rs, s', clk')"
    and life: "\<forall>r\<in>set rs. inLifetime s (lastTimestamp (snd r))"
  shows "sorted_wrt (<s) (map fst rs)"
proof -
  note inv = calls_invariant [OF ok run]
  have val: "sint (fst r) = stamp (snd r)" if "r \<in> set rs" for r
  proof -
    from inv that have r: "fieldsInRange (snd r)" "startTime (snd r) = startTime s"
        "machineID (snd r) = machineID s" "lastTimestamp (snd r) \<in> set clk"
        "fst r = specLayout (lastTimestamp (snd r) - startTime s) (machineID s) (sequence (snd r))"
      by blast+
    from life that r(2) have "inLifetime (snd r) (lastTimestamp (snd r))"
      by (simp add: inLifetime_def timestampOffset_def)
    from id_stamp [OF r(1) this] r(2,3,5) show ?thesis
      by simp
  qed
  have up: "fst a <s fst b" if "a \<in> set rs" "b \<in> set rs" "pairLess (snd a) (snd b)" for a b
  proof -
    from inv that(1,2) have "fieldsInRange (snd a)" "fieldsInRange (snd b)"
        "startTime (snd b) = startTime (snd a)" "machineID (snd b) = machineID (snd a)"
      by simp_all
    from stamp_mono [OF that(3) this] val [OF that(1)] val [OF that(2)] show ?thesis
      by (simp add: word_sless_alt)
  qed
  from inv have "sorted_wrt (\<lambda>a b. pairLess (snd a) (snd b)) rs"
    by (simp add: sorted_wrt_map)
  then have "sorted_wrt (\<lambda>a b. fst a <s fst b) rs"
    by (rule sorted_wrt_mono_rel [rotated]) (rule up)
  then show ?thesis
    by (simp add: sorted_wrt_map)
qed

lemma calls_per_ms:
  assumes ok: "fieldsInRange s" and run: "calls n s clk = Some (rs, s', clk')"
  shows "length (filter (\<lambda>r. lastTimestamp (snd r) = t) rs) \<le> 4096"
    and "distinct (map fst (filter (\<lambda>r. lastTimestamp (snd r) = t) rs))"
    and "sorted_wrt (<s) (map (\<lambda>r. sequence (snd r)) (filter (\<lambda>r. lastTimestamp (snd r) = t) rs))"
    and "\<forall>r\<in>set rs. 0 \<le>s sequence (snd r) \<and> sequence (snd r) \<le>s 4095"
proof -
  let ?F = "filter (\<lambda>r. lastTimestamp (snd r) = t) rs"
  let ?key = "\<lambda>r. nat (sint (sequence (snd r)))"
  note inv = calls_invariant [OF ok run]
  from inv show all: "\<forall>r\<in>set rs. 0 \<le>s sequence (snd r) \<and> sequence (snd r) \<le>s 4095"
    by (simp add: fieldsInRange_def)
  have rng: "0 \<le> sint (sequence (snd r)) \<and> sint (sequence (snd r)) \<le> 4095
      \<and> fst r AND 4095 = sequence (snd r)" if "r \<in> set ?F" for r
  proof -
    from that have "r \<in> set rs" by simp
    with inv have r: "fieldsInRange (snd r)" "machineID (snd r) = machineID s"
        "fst r = specLayout (lastTimestamp (snd r) - startTime s) (machineID s) (sequence (snd r))"
      by blast+
    from r(1,2) have f: "0 \<le>s machineID s" "machineID s \<le>s 1023"
        "0 \<le>s sequence (snd r)" "sequence (snd r) \<le>s 4095"
      by (simp_all add: fieldsInRange_def)
    from layout_recover(1) [OF f] r(3) f(3,4) show ?thesis
      by (simp add: word_sle_eq)
  qed
  from inv have "sorted_wrt (\<lambda>a b. pairLess (snd a) (snd b)) rs"
    by (simp add: sorted_wrt_map)
  then have srt: "sorted_wrt (\<lambda>a b. pairLess (snd a) (snd b)) ?F"
    by (rule sorted_wrt_filter)
  have less: "sequence (snd a) <s sequence (snd b)"
    if "a \<in> set ?F" "b \<in> set ?F" "pairLess (snd a) (snd b)" for a b
    using that by (auto simp add: pairLess_def word_sless_alt)
  from srt have "sorted_wrt (\<lambda>a b. sequence (snd a) <s sequence (snd b)) ?F"
    by (rule sorted_wrt_mono_rel [rotated]) (rule less)
  then show seqs: "sorted_wrt (<s) (map (\<lambda>r. sequence (snd r)) ?F)"
    by (simp add: sorted_wrt_map)
  have "?key a < ?key b" if "a \<in> set ?F" "b \<in> set ?F" "pairLess (snd a) (snd b)" for a b
    using less [OF that] rng [OF that(1)] rng [OF that(2)] by (simp add: word_sless_alt)
  with srt have "sorted_wrt (\<lambda>a b. ?key a < ?key b) ?F"
    by (rule sorted_wrt_mono_rel [rotated])
  then have "sorted_wrt (<) (map ?key ?F)"
    by (simp add: sorted_wrt_map)
  moreover have "\<forall>x\<in>set (map ?key ?F). x < 4096"
  proof
    fix x assume "x \<in> set (map ?key ?F)"
    then obtain r where "r \<in> set ?F" and x: "x = ?key r" by auto
    from rng [OF this(1)] x show "x < 4096" by linarith
  qed
  ultimately have "length (map ?key ?F) \<le> 4096"
    by (rule strict_sorted_bounded_length)
  then show "length ?F \<le> 4096" by simp
  have "fst a \<noteq> fst b" if "a \<in> set ?F" "b \<in> set ?F" "pairLess (snd a) (snd b)" for a b
    using less [OF that] rng [OF that(1)] rng [OF that(2)] by (auto simp add: word_sless_alt)
  with srt have "sorted_wrt (\<lambda>a b. fst a \<noteq> fst b) ?F"
    by (rule sorted_wrt_mono_rel [rotated])
  then have "sorted_wrt (\<noteq>) (map fst ?F)"
    by (simp add: sorted_wrt_map)
  then show "distinct (map fst ?F)"
    by (rule sorted_wrt_neq_distinct)
qed

lemma calls_same_ms:
  assumes "fieldsInRange s" and "sint (sequence s) + int n \<le> 4095"
  shows "calls n s (replicate n (lastTimestamp s) @ rest) =
    Some (map (\<lambda>k. (specLayout (lastTimestamp s - startTime s) (machineID s) (sequence s + 1 + of_nat k),
                     s\<lparr>lastTimestamp := lastTimestamp s, sequence := sequence s + 1 + of_nat k\<rparr>)) [0..<n],
          s\<lparr>lastTimestamp := lastTimestamp s, sequence := sequence s + of_nat n\<rparr>, rest)"
  using assms
proof (induction n arbitrary: s)
  case 0
  then show ?case by simp
next
  case (Suc n)
  let ?l = "lastTimestamp s"
  let ?s1 = "s\<lparr>lastTimestamp := ?l, sequence := sequence s + 1\<rparr>"
  from Suc.prems(1) have q: "0 \<le>s sequence s" "sequence s \<le>s 4095"
    by (simp_all add: fieldsInRange_def)
  note succ = sint_succ [OF q]
  with Suc.prems(2) have room: "\<not> 4095 <s sequence s + 1"
    by (simp add: word_sless_alt)
  then have first: "nextID s (?l # replicate n ?l @ rest) =
      Some (specLayout (?l - startTime s) (machineID s) (sequence s + 1), ?s1, replicate n ?l @ rest)"
    by (simp add: nextID_same)
  from Suc.prems succ have ok1: "fieldsInRange ?s1" and room1: "sint (sequence ?s1) + int n \<le> 4095"
    by (simp_all add: fieldsInRange_def word_sle_eq)
  from Suc.IH [OF ok1 room1] have rest: "calls n ?s1 (replicate n ?l @ rest) =
    Some (map (\<lambda>k. (specLayout (?l - startTime s) (machineID s) (sequence s + 1 + 1 + of_nat k),
                     s\<lparr>lastTimestamp := ?l, sequence := sequence s + 1 + 1 + of_nat k\<rparr>)) [0..<n],
          s\<lparr>lastTimestamp := ?l, sequence := sequence s + 1 + of_nat n\<rparr>, rest)"
    by simp
  from first rest show ?case
    by (simp add: map_upt_Suc add.assoc del: upt_Suc)
qed

lemma calls_fresh_ms:
  assumes "fieldsInRange s" and "lastTimestamp s <s t" and "n < 4096"
  shows "calls (Suc n) s (replicate (Suc n) t @ rest) =
    Some (map (\<lambda>k. (specLayout (t - startTime s) (machineID s) (of_nat k),
                     s\<lparr>lastTimestamp := t, sequence := of_nat k\<rparr>)) [0..<Suc n],
          s\<lparr>lastTimestamp := t, sequence := of_nat n\<rparr>, rest)"
proof -
  let ?s1 = "s\<lparr>lastTimestamp := t, sequence := 0\<rparr>"
  from assms(2) have first: "nextID s (t # replicate n t @ rest) =
      Some (specLayout (t - startTime s) (machineID s) 0, ?s1, replicate n t @ rest)"
    by (rule nextID_fresh)
  from assms(1,3) have ok1: "fieldsInRange ?s1" and room1: "sint (sequence ?s1) + int n \<le> 4095"
    by (simp_all add: fieldsInRange_def word_sle_eq)
  from calls_same_ms [OF ok1 room1, of rest] have rest: "calls n ?s1 (replicate n t @ rest) =
    Some (map (\<lambda>k. (specLayout (t - startTime s) (machineID s) (1 + of_nat k),
                     s\<lparr>lastTimestamp := t, sequence := 1 + of_nat k\<rparr>)) [0..<n],
          s\<lparr>lastTimestamp := t, sequence := of_nat n\<rparr>, rest)"
    by simp
  from first rest show ?thesis
    by (simp add: map_upt_Suc del: upt_Suc)
qed

subsection \<open>Init\<close>

lemma machine_ok_iff:
  "(m <s 0 \<or> maxMachineID <s m) \<longleftrightarrow> \<not> (0 \<le> sint m \<and> sint m \<le> 1023)"
  by (auto simp add: maxMachineID_eq word_sless_alt)

lemma Init_failure_keeps: "fst (Init env now config g) \<noteq> None \<Longrightarrow> snd (Init env now config g) = g"
  by (auto simp add: Init_def split: if_splits sum.splits)

lemma Init_success:
  assumes "Init env now config g = (None, g')"
  shows "\<exists>start. resolveStartTime env config = Inr start \<and> \<not> now <s start
           \<and> g' = Some \<lparr>startTime = start, machineID = MachineID config, lastTimestamp = - 1, sequence = 0\<rparr>
           \<and> 0 \<le> sint (MachineID config) \<and> sint (MachineID config) \<le> 1023"
  using assms
  by (auto simp add: Init_def maxMachineID_eq word_sless_alt split: if_splits sum.splits)

lemma Init_fieldsInRange:
  assumes "Init env now config g = (None, Some s)"
  shows "fieldsInRange s" and "lastTimestamp s = - 1" and "sequence s = 0"
  using Init_success [OF assms] by (auto simp add: fieldsInRange_def word_sle_eq)

section \<open>The claims\<close>

text \<open>
  In the theorems below an instance is any state with \<open>fieldsInRange\<close>: the instance
  that a successful \<open>Init\<close> publishes is one (\<open>Init_fieldsInRange\<close>) and every call of
  \<open>nextID\<close> that returns leaves one (\<open>nextID_step\<close>). Calls on one instance hold its
  mutex from the first statement to the return, so the calls of concurrent callers take
  effect one after another, which is what \<open>calls\<close> runs.
\<close>

text \<open>
  C1, as stated, fails: the timestamp field keeps 42 bits of \<open>now - startTime\<close> after the
  shift by 22, so two readings \<open>2^42\<close> milliseconds apart give the same identifier. On
  the instance that \<open>Init\<close> publishes for the default start time, the calls at the
  readings 1672502400000 and 1672502400000 + 2^42 both return 0.
\<close>

theorem uniqueness_counterexample:
  "fieldsInRange \<lparr>startTime = 1672502400000, machineID = 0, lastTimestamp = - 1, sequence = 0\<rparr>
   \<and> calls 2 \<lparr>startTime = 1672502400000, machineID = 0, lastTimestamp = - 1, sequence = 0\<rparr>
        [1672502400000, 6070548911104]
      = Some ([(0, \<lparr>startTime = 1672502400000, machineID = 0, lastTimestamp = 1672502400000, sequence = 0\<rparr>),
               (0, \<lparr>startTime = 1672502400000, machineID = 0, lastTimestamp = 6070548911104, sequence = 0\<rparr>)],
              \<lparr>startTime = 1672502400000, machineID = 0, lastTimestamp = 6070548911104, sequence = 0\<rparr>, [])"
  by code_simp

text \<open>
  C1, amended. Each call of \<open>nextID\<close> that returns strictly increases the pair
  (lastTimestamp, sequence) in the lexicographic order, so the pairs of any two calls
  differ; and when every timestamp \<open>t\<close> that the calls issue (the reading a call returns
  with) is within the lifetime of the 41-bit field, \<open>0 <= t - startTime < 2^41\<close>, the
  identifiers of any two calls differ.
\<close>

theorem uniqueness_in_lifetime:
  assumes "fieldsInRange s" and "calls n s clk = Some (rs, s', clk')"
  shows "sorted_wrt pairLess (s # map snd rs)
     \<and> distinct (map (\<lambda>r. (lastTimestamp (snd r), sequence (snd r))) rs)
     \<and> ((\<forall>r\<in>set rs. inLifetime s (lastTimestamp (snd r))) \<longrightarrow> distinct (map fst rs))"
proof -
  from calls_invariant [OF assms] have "sorted_wrt pairLess (s # map snd rs)"
    by blast
  moreover note calls_pairs_distinct [OF assms]
  moreover have "distinct (map fst rs)" if "\<forall>r\<in>set rs. inLifetime s (lastTimestamp (snd r))"
    using calls_ids_increase [OF assms that] by (simp add: signed.strict_sorted_iff)
  ultimately show ?thesis by blast
qed

theorem uniqueness_in_lifetime_witness:
  "fieldsInRange \<lparr>startTime = 1672502400000, machineID = 7, lastTimestamp = - 1, sequence = 0\<rparr>
   \<and> calls 3 \<lparr>startTime = 1672502400000, machineID = 7, lastTimestamp = - 1, sequence = 0\<rparr> [1700000000000, 1700000000000, 1700000000001]
      = Some ([(115333293670428672, \<lparr>startTime = 1672502400000, machineID = 7, lastTimestamp = 1700000000000, sequence = 0\<rparr>),
               (115333293670428673, \<lparr>startTime = 1672502400000, machineID = 7, lastTimestamp = 1700000000000, sequence = 1\<rparr>),
               (115333293674622976, \<lparr>startTime = 1672502400000, machineID = 7, lastTimestamp = 1700000000001, sequence = 0\<rparr>)],
              \<lparr>startTime = 1672502400000, machineID = 7, lastTimestamp = 1700000000001, sequence = 0\<rparr>, [])
   \<and> inLifetime \<lparr>startTime = 1672502400000, machineID = 7, lastTimestamp = - 1, sequence = 0\<rparr> 1700000000000
   \<and> inLifetime \<lparr>startTime = 1672502400000, machineID = 7, lastTimestamp = - 1, sequence = 0\<rparr> 1700000000001
   \<and> pairLess \<lparr>startTime = 1672502400000, machineID = 7, lastTimestamp = - 1, sequence = 0\<rparr> \<lparr>startTime = 1672502400000, machineID = 7, lastTimestamp = 1700000000000, sequence = 0\<rparr>
   \<and> pairLess \<lparr>startTime = 1672502400000, machineID = 7, lastTimestamp = 1700000000000, sequence = 0\<rparr> \<lparr>startTime = 1672502400000, machineID = 7, lastTimestamp = 1700000000000, sequence = 1\<rparr>
   \<and> pairLess \<lparr>startTime = 1672502400000, machineID = 7, lastTimestamp = 1700000000000, sequence = 1\<rparr> \<lparr>startTime = 1672502400000, machineID = 7, lastTimestamp = 1700000000001, sequence = 0\<rparr>
   \<and> distinct [115333293670428672, 115333293670428673, 115333293674622976 :: int64]"
proof -
  let ?s = "\<lparr>startTime = 1672502400000, machineID = 7, lastTimestamp = - 1, sequence = 0\<rparr>"
  have ok: "fieldsInRange ?s"
    by (simp add: fieldsInRange_def word_sle_eq)
  have run: "calls 3 ?s [1700000000000, 1700000000000, 1700000000001]
      = Some ([(115333293670428672, \<lparr>startTime = 1672502400000, machineID = 7, lastTimestamp = 1700000000000, sequence = 0\<rparr>),
               (115333293670428673, \<lparr>startTime = 1672502400000, machineID = 7, lastTimestamp = 1700000000000, sequence = 1\<rparr>),
               (115333293674622976, \<lparr>startTime = 1672502400000, machineID = 7, lastTimestamp = 1700000000001, sequence = 0\<rparr>)],
              \<lparr>startTime = 1672502400000, machineID = 7, lastTimestamp = 1700000000001, sequence = 0\<rparr>, [])"
    by code_simp
  have l1: "inLifetime ?s 1700000000000" and l2: "inLifetime ?s 1700000000001"
    by (simp_all add: inLifetime_def timestampOffset_def timestampBits_def)
  from uniqueness_in_lifetime [OF ok run] ok run l1 l2 show ?thesis
    by simp
qed

text \<open>
  C2, as stated, fails: an offset of \<open>2^41\<close> milliseconds shifted by 22 sets bit 63. On
  the instance that \<open>Init\<close> publishes for the default start time, the call at the reading
  1672502400000 returns 0 and the next call, at 1672502400000 + 2^41, returns
  \<open>-2^63\<close>, which is smaller.
\<close>

theorem monotonicity_counterexample:
  "fieldsInRange \<lparr>startTime = 1672502400000, machineID = 0, lastTimestamp = - 1, sequence = 0\<rparr>
   \<and> calls 2 \<lparr>startTime = 1672502400000, machineID = 0, lastTimestamp = - 1, sequence = 0\<rparr>
        [1672502400000, 3871525655552]
      = Some ([(0, \<lparr>startTime = 1672502400000, machineID = 0, lastTimestamp = 1672502400000, sequence = 0\<rparr>),
               (- 9223372036854775808,
                \<lparr>startTime = 1672502400000, machineID = 0, lastTimestamp = 3871525655552, sequence = 0\<rparr>)],
              \<lparr>startTime = 1672502400000, machineID = 0, lastTimestamp = 3871525655552, sequence = 0\<rparr>, [])
   \<and> (- 9223372036854775808 :: int64) <s 0"
  by code_simp

text \<open>
  C2, amended. When every timestamp \<open>t\<close> that the calls issue (the reading a call
  returns with) is within the lifetime of the 41-bit field, \<open>0 <= t - startTime < 2^41\<close>,
  the identifiers of sequential calls on one instance are strictly increasing as signed
  64-bit integers: a call that has returned before another begins has returned the
  smaller identifier.
\<close>

theorem monotonicity_in_lifetime:
  assumes "fieldsInRange s" and "calls n s clk = Some (rs, s', clk')"
    and "\<forall>r\<in>set rs. inLifetime s (lastTimestamp (snd r))"
  shows "sorted_wrt (<s) (map fst rs)
     \<and> (\<forall>a b. a < b \<and> b < n \<longrightarrow> fst (rs ! a) <s fst (rs ! b))"
proof -
  from calls_ids_increase [OF assms] have sorted: "sorted_wrt (<s) (map fst rs)" .
  from calls_invariant [OF assms(1,2)] have len: "length rs = n" by blast
  from sorted len have "fst (rs ! a) <s fst (rs ! b)" if "a < b \<and> b < n" for a b
    using that by (auto simp add: sorted_wrt_iff_nth_less)
  with sorted show ?thesis by blast
qed

theorem monotonicity_in_lifetime_witness:
  "fieldsInRange \<lparr>startTime = 1672502400000, machineID = 7, lastTimestamp = - 1, sequence = 0\<rparr>
   \<and> calls 3 \<lparr>startTime = 1672502400000, machineID = 7, lastTimestamp = - 1, sequence = 0\<rparr> [1700000000000, 1700000000000, 1700000000001]
      = Some ([(115333293670428672, \<lparr>startTime = 1672502400000, machineID = 7, lastTimestamp = 1700000000000, sequence = 0\<rparr>),
               (115333293670428673, \<lparr>startTime = 1672502400000, machineID = 7, lastTimestamp = 1700000000000, sequence = 1\<rparr>),
               (115333293674622976, \<lparr>startTime = 1672502400000, machineID = 7, lastTimestamp = 1700000000001, sequence = 0\<rparr>)],
              \<lparr>startTime = 1672502400000, machineID = 7, lastTimestamp = 1700000000001, sequence = 0\<rparr>, [])
   \<and> inLifetime \<lparr>startTime = 1672502400000, machineID = 7, lastTimestamp = - 1, sequence = 0\<rparr> 1700000000000
   \<and> inLifetime \<lparr>startTime = 1672502400000, machineID = 7, lastTimestamp = - 1, sequence = 0\<rparr> 1700000000001
   \<and> (115333293670428672 :: int64) <s 115333293670428673
   \<and> (115333293670428673 :: int64) <s 115333293674622976
   \<and> (115333293670428672 :: int64) <s 115333293674622976"
proof -
  let ?s = "\<lparr>startTime = 1672502400000, machineID = 7, lastTimestamp = - 1, sequence = 0\<rparr>"
  have ok: "fieldsInRange ?s"
    by (simp add: fieldsInRange_def word_sle_eq)
  have run: "calls 3 ?s [1700000000000, 1700000000000, 1700000000001]
      = Some ([(115333293670428672, \<lparr>startTime = 1672502400000, machineID = 7, lastTimestamp = 1700000000000, sequence = 0\<rparr>),
               (115333293670428673, \<lparr>startTime = 1672502400000, machineID = 7, lastTimestamp = 1700000000000, sequence = 1\<rparr>),
               (115333293674622976, \<lparr>startTime = 1672502400000, machineID = 7, lastTimestamp = 1700000000001, sequence = 0\<rparr>)],
              \<lparr>startTime = 1672502400000, machineID = 7, lastTimestamp = 1700000000001, sequence = 0\<rparr>, [])"
    by code_simp
  have l1: "inLifetime ?s 1700000000000" and l2: "inLifetime ?s 1700000000001"
    by (simp_all add: inLifetime_def timestampOffset_def timestampBits_def)
  from l1 l2 monotonicity_in_lifetime [OF ok run] ok run show ?thesis
    by simp
qed

text \<open>
  C3. \<open>nextID\<close> returns the layout of the specification,
  \<open>((now - startTime) << 22) | (machineID << 12) | sequence\<close>: at once, with sequence 0,
  when the reading \<open>now\<close> is after \<open>lastTimestamp\<close>; at once, with the sequence
  incremented, when the reading equals \<open>lastTimestamp\<close> and the sequence is below 4095;
  and otherwise at the first reading after \<open>lastTimestamp\<close>, with sequence 0. So a call
  returns an identifier whenever the clock offers a reading after \<open>lastTimestamp\<close>, and
  every identifier returned is that layout at the clock reading and the sequence that the
  call has stored in the instance. Masking and shifting the identifier gives the sequence
  back from bits 0..11 and the machine ID from bits 12..21, with Go's arithmetic shift as
  well as with a logical one.
\<close>

theorem nextID_bit_layout:
  assumes "fieldsInRange s"
  shows "(lastTimestamp s <s now \<longrightarrow>
            nextID s (now # clk) =
              Some (specLayout (now - startTime s) (machineID s) 0,
                    s\<lparr>lastTimestamp := now, sequence := 0\<rparr>, clk))
     \<and> (now = lastTimestamp s \<and> sequence s \<noteq> 4095 \<longrightarrow>
            nextID s (now # clk) =
              Some (specLayout (now - startTime s) (machineID s) (sequence s + 1),
                    s\<lparr>lastTimestamp := now, sequence := sequence s + 1\<rparr>, clk))
     \<and> (now <s lastTimestamp s \<or> now = lastTimestamp s \<and> sequence s = 4095 \<longrightarrow>
            nextID s (now # clk) =
              (case firstAfter (lastTimestamp s) clk of
                 None \<Rightarrow> None
               | Some (t, rest) \<Rightarrow>
                   Some (specLayout (t - startTime s) (machineID s) 0,
                         s\<lparr>lastTimestamp := t, sequence := 0\<rparr>, rest)))
     \<and> ((\<exists>t\<in>set cs. lastTimestamp s <s t) \<longrightarrow>
            (\<exists>j u cs1. nextID s cs = Some (j, u, cs1)
               \<and> j = specLayout (lastTimestamp u - startTime s) (machineID s) (sequence u)
               \<and> lastTimestamp u \<in> set cs
               \<and> j AND 4095 = sequence u
               \<and> drop_bit 12 j AND 1023 = machineID s
               \<and> signed_drop_bit 12 j AND 1023 = machineID s))
     \<and> (nextID s cs = Some (i, s', clk') \<longrightarrow>
            i = specLayout (lastTimestamp s' - startTime s) (machineID s) (sequence s')
            \<and> lastTimestamp s' \<in> set cs
            \<and> i AND 4095 = sequence s'
            \<and> drop_bit 12 i AND 1023 = machineID s
            \<and> signed_drop_bit 12 i AND 1023 = machineID s)"
proof -
  have packed: "j = specLayout (lastTimestamp u - startTime s) (machineID s) (sequence u)
            \<and> lastTimestamp u \<in> set cs
            \<and> j AND 4095 = sequence u
            \<and> drop_bit 12 j AND 1023 = machineID s
            \<and> signed_drop_bit 12 j AND 1023 = machineID s"
    if call: "nextID s cs = Some (j, u, cs1)" for j u cs1
  proof -
    note step = nextID_step [OF assms call]
    from step(1,4) have r: "0 \<le>s machineID s" "machineID s \<le>s 1023"
        "0 \<le>s sequence u" "sequence u \<le>s 4095"
      by (simp_all add: fieldsInRange_def)
    from step(3,4,7) have j: "j = specLayout (lastTimestamp u - startTime s) (machineID s) (sequence u)"
      by simp
    from layout_recover [OF r] j step(5) show ?thesis
      by simp
  qed
  have fresh: "nextID s (now # clk) =
              Some (specLayout (now - startTime s) (machineID s) 0,
                    s\<lparr>lastTimestamp := now, sequence := 0\<rparr>, clk)"
    if "lastTimestamp s <s now"
    using that by (rule nextID_fresh)
  have same: "nextID s (now # clk) =
              Some (specLayout (now - startTime s) (machineID s) (sequence s + 1),
                    s\<lparr>lastTimestamp := now, sequence := sequence s + 1\<rparr>, clk)"
    if "now = lastTimestamp s \<and> sequence s \<noteq> 4095"
    using that sequence_full_iff [OF assms] by (simp add: nextID_same)
  have wait: "nextID s (now # clk) =
              (case firstAfter (lastTimestamp s) clk of
                 None \<Rightarrow> None
               | Some (t, rest) \<Rightarrow>
                   Some (specLayout (t - startTime s) (machineID s) 0,
                         s\<lparr>lastTimestamp := t, sequence := 0\<rparr>, rest))"
    if "now <s lastTimestamp s \<or> now = lastTimestamp s \<and> sequence s = 4095"
  proof -
    from that sequence_full_iff [OF assms]
    have "now <s lastTimestamp s \<or> (now = lastTimestamp s \<and> 4095 <s sequence s + 1)"
      by blast
    then show ?thesis by (rule nextID_wait)
  qed
  have returns: "\<exists>j u cs1. nextID s cs = Some (j, u, cs1)
               \<and> j = specLayout (lastTimestamp u - startTime s) (machineID s) (sequence u)
               \<and> lastTimestamp u \<in> set cs
               \<and> j AND 4095 = sequence u
               \<and> drop_bit 12 j AND 1023 = machineID s
               \<and> signed_drop_bit 12 j AND 1023 = machineID s"
    if "\<exists>t\<in>set cs. lastTimestamp s <s t"
  proof -
    from nextID_returns [OF that] obtain j u cs1 where call: "nextID s cs = Some (j, u, cs1)"
      by blast
    from packed [OF call] call show ?thesis by blast
  qed
  from fresh same wait returns packed show ?thesis
    by blast
qed

theorem nextID_bit_layout_witness:
  "fieldsInRange \<lparr>startTime = 1672502400000, machineID = 512, lastTimestamp = 1700000000005, sequence = 41\<rparr>
   \<and> nextID \<lparr>startTime = 1672502400000, machineID = 512, lastTimestamp = 1700000000005, sequence = 41\<rparr>
        [1700000000005, 1700000000006]
      = Some (115333293693468714,
              \<lparr>startTime = 1672502400000, machineID = 512, lastTimestamp = 1700000000005, sequence = 42\<rparr>,
              [1700000000006])
   \<and> (115333293693468714 :: int64) = specLayout (1700000000005 - 1672502400000) 512 42
   \<and> (115333293693468714 :: int64) AND 4095 = 42
   \<and> drop_bit 12 (115333293693468714 :: int64) AND 1023 = 512
   \<and> signed_drop_bit 12 (115333293693468714 :: int64) AND 1023 = 512
   \<and> (1700000000005 :: int64) <s 1700000000006
   \<and> nextID \<lparr>startTime = 1672502400000, machineID = 512, lastTimestamp = 1700000000005, sequence = 41\<rparr>
        [1700000000006]
      = Some (115333293697662976,
              \<lparr>startTime = 1672502400000, machineID = 512, lastTimestamp = 1700000000006, sequence = 0\<rparr>,
              [])
   \<and> (1700000000004 :: int64) <s 1700000000005
   \<and> nextID \<lparr>startTime = 1672502400000, machineID = 512, lastTimestamp = 1700000000005, sequence = 41\<rparr>
        [1700000000004, 1700000000005, 1700000000007]
      = Some (115333293701857280,
              \<lparr>startTime = 1672502400000, machineID = 512, lastTimestamp = 1700000000007, sequence = 0\<rparr>,
              [])"
proof -
  let ?s = "\<lparr>startTime = 1672502400000, machineID = 512, lastTimestamp = 1700000000005, sequence = 41\<rparr>"
  have ok: "fieldsInRange ?s"
    by (simp add: fieldsInRange_def word_sle_eq)
  have h1: "1700000000005 = lastTimestamp ?s \<and> sequence ?s \<noteq> 4095"
    by simp
  have h2: "lastTimestamp ?s <s 1700000000006"
    by (simp add: word_sless_alt)
  have h3: "1700000000004 <s lastTimestamp ?s"
    by (simp add: word_sless_alt)
  have lt: "(1700000000005 :: int64) <s 1700000000006 \<and> (1700000000004 :: int64) <s 1700000000005"
    by (simp add: word_sless_alt)
  from h1 nextID_bit_layout [OF ok, where now = 1700000000005 and clk = "[1700000000006]"]
  have same: "nextID ?s [1700000000005, 1700000000006]
      = Some (115333293693468714,
              \<lparr>startTime = 1672502400000, machineID = 512, lastTimestamp = 1700000000005, sequence = 42\<rparr>,
              [1700000000006])"
    by (simp add: specLayout_def)
  from same nextID_bit_layout [OF ok, where cs = "[1700000000005, 1700000000006]"
      and i = 115333293693468714
      and s' = "\<lparr>startTime = 1672502400000, machineID = 512, lastTimestamp = 1700000000005, sequence = 42\<rparr>"
      and clk' = "[1700000000006]"]
  have fields: "(115333293693468714 :: int64) = specLayout (1700000000005 - 1672502400000) 512 42
      \<and> (115333293693468714 :: int64) AND 4095 = 42
      \<and> drop_bit 12 (115333293693468714 :: int64) AND 1023 = 512
      \<and> signed_drop_bit 12 (115333293693468714 :: int64) AND 1023 = 512"
    by simp
  from h2 nextID_bit_layout [OF ok, where now = 1700000000006 and clk = "[]"]
  have fresh: "nextID ?s [1700000000006]
      = Some (115333293697662976,
              \<lparr>startTime = 1672502400000, machineID = 512, lastTimestamp = 1700000000006, sequence = 0\<rparr>,
              [])"
    by (simp add: specLayout_def)
  from h3 nextID_bit_layout [OF ok, where now = 1700000000004 and clk = "[1700000000005, 1700000000007]"]
  have wait: "nextID ?s [1700000000004, 1700000000005, 1700000000007]
      = Some (115333293701857280,
              \<lparr>startTime = 1672502400000, machineID = 512, lastTimestamp = 1700000000007, sequence = 0\<rparr>,
              [])"
    by (simp add: specLayout_def firstAfter_Cons word_sle_eq)
  from ok same fields lt fresh wait show ?thesis
    by blast
qed

text \<open>
  C4, as stated, fails: the wait of lines 103-105 goes on while \<open>now <= lastTimestamp\<close>,
  so a reading equal to \<open>lastTimestamp\<close> does not end it. With \<open>lastTimestamp = 10\<close> and
  the readings 5, 10, 11 the call passes over the reading 10, where a wait that ends at
  \<open>now >= lastTimestamp\<close> stops, and returns at 11.
\<close>

theorem rollback_wait_counterexample:
  "(5 :: int64) <s 10
   \<and> nextID \<lparr>startTime = 0, machineID = 5, lastTimestamp = 10, sequence = 0\<rparr> [5, 10, 11]
      = Some (46157824, \<lparr>startTime = 0, machineID = 5, lastTimestamp = 11, sequence = 0\<rparr>, [])
   \<and> specRollbackWait 10 5 [10, 11] = Some (10, [11])
   \<and> spin 10 5 [10, 11] = Some (11, [])"
  by code_simp

text \<open>
  C4, amended. When the first reading of a call is strictly before \<open>lastTimestamp\<close>, the
  call re-reads the clock and returns at the first reading strictly after
  \<open>lastTimestamp\<close> (exit condition \<open>now > lastTimestamp\<close>), with that reading as the new
  \<open>lastTimestamp\<close> and sequence 0. It has not returned as long as every reading is at or
  before \<open>lastTimestamp\<close>, so nothing is issued in the rollback window, and the pair
  (lastTimestamp, sequence) it leaves is strictly greater than the one it found.
\<close>

theorem rollback_wait:
  assumes "now <s lastTimestamp s"
  shows "nextID s (now # clk) =
           (case firstAfter (lastTimestamp s) clk of
              None \<Rightarrow> None
            | Some (t, clk') \<Rightarrow>
                Some (specLayout (t - startTime s) (machineID s) 0,
                      s\<lparr>lastTimestamp := t, sequence := 0\<rparr>, clk'))
     \<and> (nextID s (now # clk) = None \<longleftrightarrow> (\<forall>x\<in>set clk. x \<le>s lastTimestamp s))
     \<and> (nextID s (now # clk) = Some (i, s', clk') \<longrightarrow>
          lastTimestamp s <s lastTimestamp s' \<and> sequence s' = 0 \<and> pairLess s s'
          \<and> (\<exists>pre. clk = pre @ lastTimestamp s' # clk' \<and> (\<forall>x\<in>set pre. x \<le>s lastTimestamp s)))"
proof -
  from assms have eq: "nextID s (now # clk) =
           (case firstAfter (lastTimestamp s) clk of
              None \<Rightarrow> None
            | Some (t, clk') \<Rightarrow>
                Some (specLayout (t - startTime s) (machineID s) 0,
                      s\<lparr>lastTimestamp := t, sequence := 0\<rparr>, clk'))"
    by (simp add: nextID_wait)
  have none: "nextID s (now # clk) = None \<longleftrightarrow> (\<forall>x\<in>set clk. x \<le>s lastTimestamp s)"
    unfolding eq using firstAfter_None [of "lastTimestamp s" clk]
    by (auto split: option.splits)
  have some: "lastTimestamp s <s lastTimestamp s' \<and> sequence s' = 0 \<and> pairLess s s'
          \<and> (\<exists>pre. clk = pre @ lastTimestamp s' # clk' \<and> (\<forall>x\<in>set pre. x \<le>s lastTimestamp s))"
    if "nextID s (now # clk) = Some (i, s', clk')"
  proof -
    from that eq obtain t where f: "firstAfter (lastTimestamp s) clk = Some (t, clk')"
      and s': "s' = s\<lparr>lastTimestamp := t, sequence := 0\<rparr>"
      by (auto split: option.splits)
    from firstAfter_Some [OF f] s' show ?thesis
      by (simp add: pairLess_def)
  qed
  from eq none some show ?thesis by blast
qed

theorem rollback_wait_witness:
  "(5 :: int64) <s lastTimestamp \<lparr>startTime = 0, machineID = 5, lastTimestamp = 10, sequence = 0\<rparr>
   \<and> nextID \<lparr>startTime = 0, machineID = 5, lastTimestamp = 10, sequence = 0\<rparr> [5, 7, 10, 11, 12]
      = Some (46157824, \<lparr>startTime = 0, machineID = 5, lastTimestamp = 11, sequence = 0\<rparr>, [12])
   \<and> (10 :: int64) <s 11
   \<and> pairLess \<lparr>startTime = 0, machineID = 5, lastTimestamp = 10, sequence = 0\<rparr>
        \<lparr>startTime = 0, machineID = 5, lastTimestamp = 11, sequence = 0\<rparr>
   \<and> [7, 10, 11, 12] = [7, 10] @ (11 :: int64) # [12]
   \<and> (7 :: int64) \<le>s 10 \<and> (10 :: int64) \<le>s 10"
proof -
  let ?s = "\<lparr>startTime = 0, machineID = 5, lastTimestamp = 10, sequence = 0\<rparr>"
  let ?s' = "\<lparr>startTime = 0, machineID = 5, lastTimestamp = 11, sequence = 0\<rparr>"
  have rb: "(5 :: int64) <s lastTimestamp ?s"
    by (simp add: word_sless_alt)
  have call: "nextID ?s (5 # [7, 10, 11, 12]) = Some (46157824, ?s', [12])"
    by code_simp
  have le: "(7 :: int64) \<le>s 10 \<and> (10 :: int64) \<le>s 10"
    by (simp add: word_sle_eq)
  from rollback_wait [OF rb, of "[7, 10, 11, 12]" 46157824 ?s' "[12]"] call
  have "lastTimestamp ?s <s lastTimestamp ?s' \<and> pairLess ?s ?s'"
    by blast
  with rb call le show ?thesis
    by simp
qed

text \<open>
  C5. A call whose reading equals \<open>lastTimestamp\<close> increments the sequence and returns at
  once while the result is at most 4095. With the sequence at 4095 the call returns at
  the first reading strictly after \<open>lastTimestamp\<close>, with sequence 0, and not before. So
  the first \<open>m + 1 <= 4096\<close> calls in a millisecond \<open>t\<close> that the instance enters
  (\<open>lastTimestamp < t\<close>: on a new instance, any \<open>t\<close> after the initial \<open>-1\<close>) get the
  sequences \<open>0..m\<close> in order; among the results of any run the calls stamped with one
  millisecond are at most 4096, their sequences are strictly increasing within
  \<open>[0, 4095]\<close> and their identifiers are pairwise different; and no call is dropped: it
  returns as soon as the clock offers a reading after \<open>lastTimestamp\<close>.
\<close>

theorem sequence_overflow:
  assumes "fieldsInRange s"
  shows "(now = lastTimestamp s \<and> sequence s \<noteq> 4095 \<longrightarrow>
            nextID s (now # clk) =
              Some (specLayout (now - startTime s) (machineID s) (sequence s + 1),
                    s\<lparr>lastTimestamp := now, sequence := sequence s + 1\<rparr>, clk))
     \<and> (sequence s = 4095 \<longrightarrow>
            nextID s clk =
              (case firstAfter (lastTimestamp s) clk of
                 None \<Rightarrow> None
               | Some (u, clk1) \<Rightarrow>
                   Some (specLayout (u - startTime s) (machineID s) 0,
                         s\<lparr>lastTimestamp := u, sequence := 0\<rparr>, clk1)))
     \<and> (lastTimestamp s <s t \<and> m < 4096 \<longrightarrow>
            calls (Suc m) s (replicate (Suc m) t @ clk) =
              Some (map (\<lambda>k. (specLayout (t - startTime s) (machineID s) (of_nat k),
                               s\<lparr>lastTimestamp := t, sequence := of_nat k\<rparr>)) [0..<Suc m],
                    s\<lparr>lastTimestamp := t, sequence := of_nat m\<rparr>, clk))
     \<and> (calls n s clk = Some (rs, s', clk') \<longrightarrow>
            length (filter (\<lambda>r. lastTimestamp (snd r) = t) rs) \<le> 4096
            \<and> distinct (map fst (filter (\<lambda>r. lastTimestamp (snd r) = t) rs))
            \<and> sorted_wrt (<s) (map (\<lambda>r. sequence (snd r)) (filter (\<lambda>r. lastTimestamp (snd r) = t) rs))
            \<and> (\<forall>r\<in>set rs. 0 \<le>s sequence (snd r) \<and> sequence (snd r) \<le>s 4095))
     \<and> ((\<exists>u\<in>set clk. lastTimestamp s <s u) \<longrightarrow> (\<exists>i s1 clk1. nextID s clk = Some (i, s1, clk1)))"
proof (intro conjI impI)
  assume a: "now = lastTimestamp s \<and> sequence s \<noteq> 4095"
  from assms have q: "0 \<le>s sequence s" "sequence s \<le>s 4095"
    by (simp_all add: fieldsInRange_def)
  from q(2) a have "sequence s <s 4095"
    by (simp add: signed.order.strict_iff_order)
  then have "sint (sequence s) < 4095"
    by (simp add: word_sless_alt)
  with sint_succ [OF q] have "\<not> 4095 <s sequence s + 1"
    by (simp add: word_sless_alt)
  with a show "nextID s (now # clk) =
              Some (specLayout (now - startTime s) (machineID s) (sequence s + 1),
                    s\<lparr>lastTimestamp := now, sequence := sequence s + 1\<rparr>, clk)"
    by (simp add: nextID_same)
next
  assume "sequence s = 4095"
  then show "nextID s clk =
              (case firstAfter (lastTimestamp s) clk of
                 None \<Rightarrow> None
               | Some (u, clk1) \<Rightarrow>
                   Some (specLayout (u - startTime s) (machineID s) 0,
                         s\<lparr>lastTimestamp := u, sequence := 0\<rparr>, clk1))"
    by (rule nextID_exhausted)
next
  assume "lastTimestamp s <s t \<and> m < 4096"
  then show "calls (Suc m) s (replicate (Suc m) t @ clk) =
              Some (map (\<lambda>k. (specLayout (t - startTime s) (machineID s) (of_nat k),
                               s\<lparr>lastTimestamp := t, sequence := of_nat k\<rparr>)) [0..<Suc m],
                    s\<lparr>lastTimestamp := t, sequence := of_nat m\<rparr>, clk)"
    using calls_fresh_ms [OF assms, of t m clk] by blast
next
  assume run: "calls n s clk = Some (rs, s', clk')"
  from calls_per_ms(1) [OF assms run]
  show "length (filter (\<lambda>r. lastTimestamp (snd r) = t) rs) \<le> 4096" .
  from calls_per_ms(2) [OF assms run]
  show "distinct (map fst (filter (\<lambda>r. lastTimestamp (snd r) = t) rs))" .
  from calls_per_ms(3) [OF assms run]
  show "sorted_wrt (<s) (map (\<lambda>r. sequence (snd r)) (filter (\<lambda>r. lastTimestamp (snd r) = t) rs))" .
  from calls_per_ms(4) [OF assms run]
  show "\<forall>r\<in>set rs. 0 \<le>s sequence (snd r) \<and> sequence (snd r) \<le>s 4095" .
next
  assume "\<exists>u\<in>set clk. lastTimestamp s <s u"
  then show "\<exists>i s1 clk1. nextID s clk = Some (i, s1, clk1)"
    by (rule nextID_returns)
qed

theorem sequence_overflow_witness:
  "fieldsInRange \<lparr>startTime = 0, machineID = 1, lastTimestamp = 10, sequence = 4094\<rparr>
   \<and> fieldsInRange \<lparr>startTime = 0, machineID = 1, lastTimestamp = 10, sequence = 4095\<rparr>
   \<and> nextID \<lparr>startTime = 0, machineID = 1, lastTimestamp = 10, sequence = 4094\<rparr> [10, 10, 11, 11]
       = Some (41951231, \<lparr>startTime = 0, machineID = 1, lastTimestamp = 10, sequence = 4095\<rparr>, [10, 11, 11])
   \<and> nextID \<lparr>startTime = 0, machineID = 1, lastTimestamp = 10, sequence = 4095\<rparr> [10, 11, 11]
       = Some (46141440, \<lparr>startTime = 0, machineID = 1, lastTimestamp = 11, sequence = 0\<rparr>, [11])
   \<and> lastTimestamp \<lparr>startTime = 0, machineID = 1, lastTimestamp = 10, sequence = 4094\<rparr> <s 11
   \<and> calls 3 \<lparr>startTime = 0, machineID = 1, lastTimestamp = 10, sequence = 4094\<rparr> [11, 11, 11, 12]
       = Some ([(46141440, \<lparr>startTime = 0, machineID = 1, lastTimestamp = 11, sequence = 0\<rparr>),
                (46141441, \<lparr>startTime = 0, machineID = 1, lastTimestamp = 11, sequence = 1\<rparr>),
                (46141442, \<lparr>startTime = 0, machineID = 1, lastTimestamp = 11, sequence = 2\<rparr>)],
               \<lparr>startTime = 0, machineID = 1, lastTimestamp = 11, sequence = 2\<rparr>, [12])
   \<and> calls 3 \<lparr>startTime = 0, machineID = 1, lastTimestamp = 10, sequence = 4094\<rparr> [10, 10, 11, 11]
       = Some ([(41951231, \<lparr>startTime = 0, machineID = 1, lastTimestamp = 10, sequence = 4095\<rparr>),
                (46141440, \<lparr>startTime = 0, machineID = 1, lastTimestamp = 11, sequence = 0\<rparr>),
                (46141441, \<lparr>startTime = 0, machineID = 1, lastTimestamp = 11, sequence = 1\<rparr>)],
               \<lparr>startTime = 0, machineID = 1, lastTimestamp = 11, sequence = 1\<rparr>, [])
   \<and> distinct [46141440, 46141441 :: int64]
   \<and> (0 :: int64) <s 1"
proof -
  let ?a = "\<lparr>startTime = 0, machineID = 1, lastTimestamp = 10, sequence = 4094\<rparr>"
  let ?b = "\<lparr>startTime = 0, machineID = 1, lastTimestamp = 10, sequence = 4095\<rparr>"
  let ?c0 = "\<lparr>startTime = 0, machineID = 1, lastTimestamp = 11, sequence = 0\<rparr>"
  let ?c1 = "\<lparr>startTime = 0, machineID = 1, lastTimestamp = 11, sequence = 1\<rparr>"
  let ?c2 = "\<lparr>startTime = 0, machineID = 1, lastTimestamp = 11, sequence = 2\<rparr>"
  let ?rs = "[(41951231 :: int64, ?b), (46141440, ?c0), (46141441, ?c1)]"
  have ok1: "fieldsInRange ?a" and ok2: "fieldsInRange ?b"
    by (simp_all add: fieldsInRange_def word_sle_eq)
  have h1: "10 = lastTimestamp ?a \<and> sequence ?a \<noteq> 4095"
    by simp
  have h2: "sequence ?b = 4095"
    by simp
  have h3: "lastTimestamp ?a <s 11"
    by (simp add: word_sless_alt)
  from h1 sequence_overflow [OF ok1, where now = 10 and clk = "[10, 11, 11]"]
  have c1: "nextID ?a [10, 10, 11, 11] = Some (41951231, ?b, [10, 11, 11])"
    by (simp add: specLayout_def)
  from h2 sequence_overflow [OF ok2, where clk = "[10, 11, 11]"]
  have c2: "nextID ?b [10, 11, 11] = Some (46141440, ?c0, [11])"
    by (simp add: specLayout_def firstAfter_Cons word_sle_eq)
  have three: "Suc 2 = 3"
    by simp
  have rep: "replicate 3 (11 :: int64) @ [12] = [11, 11, 11, 12]"
    by (simp add: numeral_3_eq_3)
  have upt: "[0..<3] = [0, 1, 2]"
    by (simp add: numeral_3_eq_3 upt_rec)
  from h3 sequence_overflow [OF ok1, where t = 11 and m = 2 and clk = "[12]"]
  have "calls (Suc 2) ?a (replicate (Suc 2) 11 @ [12]) =
          Some (map (\<lambda>k. (specLayout (11 - startTime ?a) (machineID ?a) (of_nat k),
                           ?a\<lparr>lastTimestamp := 11, sequence := of_nat k\<rparr>)) [0..<Suc 2],
                ?a\<lparr>lastTimestamp := 11, sequence := of_nat 2\<rparr>, [12])"
    by simp
  then have c3: "calls 3 ?a [11, 11, 11, 12]
      = Some ([(46141440, ?c0), (46141441, ?c1), (46141442, ?c2)], ?c2, [12])"
    unfolding three rep upt by (simp add: specLayout_def)
  have run: "calls 3 ?a [10, 10, 11, 11] = Some (?rs, ?c1, [])"
    by code_simp
  from run sequence_overflow [OF ok1, where n = 3 and clk = "[10, 10, 11, 11]" and rs = ?rs and t = 11]
  have c4: "distinct [46141440, 46141441 :: int64] \<and> (0 :: int64) <s 1"
    by (simp add: word_sless_alt)
  from ok1 ok2 c1 c2 h3 c3 run c4 show ?thesis
    by (simp only: simp_thms)
qed

text \<open>
  C6. \<open>Init\<close> panics with the machine-ID message exactly when \<open>config.MachineID\<close> is
  outside \<open>[0, 1023]\<close>. The panic publishes nothing, and an accepted machine ID is
  stored as given, never clamped.
\<close>

theorem Init_machine_id_range:
  "(fst (Init env now config g) = Some InvalidMachineId
      \<longleftrightarrow> \<not> (0 \<le> sint (MachineID config) \<and> sint (MachineID config) \<le> 1023))
   \<and> (fst (Init env now config g) = Some InvalidMachineId \<longrightarrow> snd (Init env now config g) = g)
   \<and> (Init env now config g = (None, Some s) \<longrightarrow> machineID s = MachineID config)"
proof (intro conjI impI)
  show "fst (Init env now config g) = Some InvalidMachineId
      \<longleftrightarrow> \<not> (0 \<le> sint (MachineID config) \<and> sint (MachineID config) \<le> 1023)"
    by (auto simp add: Init_def resolveStartTime_def maxMachineID_eq word_sless_alt split: sum.splits option.splits if_splits)
next
  assume "fst (Init env now config g) = Some InvalidMachineId"
  then show "snd (Init env now config g) = g"
    by (simp add: Init_failure_keeps)
next
  assume "Init env now config g = (None, Some s)"
  from Init_success [OF this] show "machineID s = MachineID config"
    by auto
qed

theorem Init_machine_id_range_witness:
  "fst (Init \<lparr>LoadLocation = (\<lambda>name. None), ParseInLocation = (\<lambda>layout v loc. None)\<rparr> 1700000000000
          \<lparr>MachineID = 1024, StartTime = []\<rparr> None) = Some InvalidMachineId
   \<and> fst (Init \<lparr>LoadLocation = (\<lambda>name. None), ParseInLocation = (\<lambda>layout v loc. None)\<rparr> 1700000000000
          \<lparr>MachineID = - 1, StartTime = []\<rparr> None) = Some InvalidMachineId
   \<and> Init \<lparr>LoadLocation = (\<lambda>name. None), ParseInLocation = (\<lambda>layout v loc. None)\<rparr> 1700000000000
          \<lparr>MachineID = 512, StartTime = []\<rparr> None
       = (None, Some \<lparr>startTime = 1672502400000, machineID = 512, lastTimestamp = - 1, sequence = 0\<rparr>)"
proof -
  let ?env = "\<lparr>LoadLocation = (\<lambda>name. None), ParseInLocation = (\<lambda>layout v loc. None)\<rparr>"
  have a: "\<not> (0 \<le> sint (MachineID \<lparr>MachineID = 1024, StartTime = []\<rparr>)
            \<and> sint (MachineID \<lparr>MachineID = 1024, StartTime = []\<rparr>) \<le> 1023)"
    by simp
  have b: "\<not> (0 \<le> sint (MachineID \<lparr>MachineID = - 1, StartTime = []\<rparr>)
            \<and> sint (MachineID \<lparr>MachineID = - 1, StartTime = []\<rparr>) \<le> 1023)"
    by simp
  have c: "Init ?env 1700000000000 \<lparr>MachineID = 512, StartTime = []\<rparr> None
       = (None, Some \<lparr>startTime = 1672502400000, machineID = 512, lastTimestamp = - 1, sequence = 0\<rparr>)"
    by (simp add: Init_def resolveStartTime_def maxMachineID_eq defaultStartTime_def word_sless_alt)
  from a b c
    Init_machine_id_range [of ?env 1700000000000 "\<lparr>MachineID = 1024, StartTime = []\<rparr>" None]
    Init_machine_id_range [of ?env 1700000000000 "\<lparr>MachineID = - 1, StartTime = []\<rparr>" None]
  show ?thesis by blast
qed

text \<open>
  C7. With no instance published (\<open>instance == nil\<close>), \<open>GetID\<close> panics with the
  not-initialized message without reading the clock or creating an instance: the package
  variable and the clock are as before. After a successful \<open>Init\<close>, no call of \<open>GetID\<close>
  ends in that panic, and the call returns an identifier as soon as the clock offers a
  reading after the initial \<open>lastTimestamp = -1\<close>.
\<close>

theorem GetID_not_initialized:
  "GetID None clk = Some (Inl NotInitialized, None, clk)
   \<and> (Init env now config g = (None, g') \<longrightarrow>
        (\<forall>c r. GetID g' c = Some r \<longrightarrow> fst r \<noteq> Inl NotInitialized)
        \<and> ((\<exists>t\<in>set clk. - 1 <s t) \<longrightarrow>
             (\<exists>i s' clk'. GetID g' clk = Some (Inr i, Some s', clk'))))"
proof (intro conjI impI allI)
  show "GetID None clk = Some (Inl NotInitialized, None, clk)"
    by (simp add: GetID_def)
next
  fix c r
  assume "Init env now config g = (None, g')" and "GetID g' c = Some r"
  with Init_success [of env now config g g'] show "fst r \<noteq> Inl NotInitialized"
    by (auto simp add: GetID_def split: option.splits)
next
  assume init: "Init env now config g = (None, g')" and later: "\<exists>t\<in>set clk. - 1 <s t"
  from Init_success [OF init] obtain s where g': "g' = Some s" and "lastTimestamp s = - 1"
    by auto
  with later have "\<exists>t\<in>set clk. lastTimestamp s <s t"
    by simp
  from nextID_returns [OF this] obtain i s' clk' where "nextID s clk = Some (i, s', clk')"
    by blast
  with g' show "\<exists>i s' clk'. GetID g' clk = Some (Inr i, Some s', clk')"
    by (simp add: GetID_def)
qed

theorem GetID_not_initialized_witness:
  "GetID None [1700000000005] = Some (Inl NotInitialized, None, [1700000000005])
   \<and> Init \<lparr>LoadLocation = (\<lambda>name. None), ParseInLocation = (\<lambda>layout v loc. None)\<rparr> 1700000000000
          \<lparr>MachineID = 512, StartTime = []\<rparr> None
       = (None, Some \<lparr>startTime = 1672502400000, machineID = 512, lastTimestamp = - 1, sequence = 0\<rparr>)
   \<and> (- 1 :: int64) <s 1700000000005
   \<and> GetID (Some \<lparr>startTime = 1672502400000, machineID = 512, lastTimestamp = - 1, sequence = 0\<rparr>)
        [1700000000005]
       = Some (Inr 115333293693468672,
               Some \<lparr>startTime = 1672502400000, machineID = 512, lastTimestamp = 1700000000005, sequence = 0\<rparr>,
               [])"
proof -
  let ?env = "\<lparr>LoadLocation = (\<lambda>name. None), ParseInLocation = (\<lambda>layout v loc. None)\<rparr>"
  let ?s = "\<lparr>startTime = 1672502400000, machineID = 512, lastTimestamp = - 1, sequence = 0\<rparr>"
  have init: "Init ?env 1700000000000 \<lparr>MachineID = 512, StartTime = []\<rparr> None = (None, Some ?s)"
    by (simp add: Init_def resolveStartTime_def maxMachineID_eq defaultStartTime_def word_sless_alt)
  have later: "(- 1 :: int64) <s 1700000000005"
    by (simp add: word_sless_alt)
  have call: "GetID (Some ?s) [1700000000005]
       = Some (Inr 115333293693468672,
               Some \<lparr>startTime = 1672502400000, machineID = 512, lastTimestamp = 1700000000005, sequence = 0\<rparr>,
               [])"
    by code_simp
  from GetID_not_initialized [of "[1700000000005]" ?env 1700000000000 "\<lparr>MachineID = 512, StartTime = []\<rparr>" None "Some ?s"]
    init later call
  show ?thesis by simp
qed

text \<open>
  C8, as stated, fails: the machine-ID check of lines 46-48 comes first. With machine ID
  1024 and the start time "2099-01-01", which parses to an epoch strictly later than the
  clock reading, \<open>Init\<close> panics with the machine-ID message, not with the
  start-time-in-future one.
\<close>

theorem Init_future_epoch_counterexample:
  "resolveStartTime \<lparr>LoadLocation = (\<lambda>name. Some (Location name)),
                      ParseInLocation = (\<lambda>layout v loc. Some 4070880000000)\<rparr>
      \<lparr>MachineID = 1024, StartTime = ''2099-01-01''\<rparr> = Inr 4070880000000
   \<and> (1700000000000 :: int64) <s 4070880000000
   \<and> Init \<lparr>LoadLocation = (\<lambda>name. Some (Location name)),
            ParseInLocation = (\<lambda>layout v loc. Some 4070880000000)\<rparr>
        1700000000000 \<lparr>MachineID = 1024, StartTime = ''2099-01-01''\<rparr> None
      = (Some InvalidMachineId, None)"
  by (simp add: resolveStartTime_def Init_def maxMachineID_eq word_sless_alt)

text \<open>
  C8, amended. \<open>Init\<close> panics with the start-time-in-future message exactly when the
  machine ID is valid, step 2 has produced a start time (the parsed string, or the
  default constant for an empty string) and that start time is strictly later than the
  clock reading of line 71. Every panic of \<open>Init\<close> leaves the package variable as it was:
  nothing new is published and an earlier instance stays.
\<close>

theorem Init_future_epoch:
  "(fst (Init env now config g) = Some StartTimeInFuture \<longleftrightarrow>
      0 \<le> sint (MachineID config) \<and> sint (MachineID config) \<le> 1023
      \<and> (\<exists>start. resolveStartTime env config = Inr start \<and> sint now < sint start))
   \<and> (StartTime config = [] \<longrightarrow> resolveStartTime env config = Inr 1672502400000)
   \<and> (fst (Init env now config g) \<noteq> None \<longrightarrow> snd (Init env now config g) = g)"
proof (intro conjI impI)
  show "fst (Init env now config g) = Some StartTimeInFuture \<longleftrightarrow>
      0 \<le> sint (MachineID config) \<and> sint (MachineID config) \<le> 1023
      \<and> (\<exists>start. resolveStartTime env config = Inr start \<and> sint now < sint start)"
  proof (cases "MachineID config <s 0 \<or> maxMachineID <s MachineID config")
    case True
    then have "Init env now config g = (Some InvalidMachineId, g)"
      unfolding Init_def by (rule if_P)
    moreover from True have "\<not> (0 \<le> sint (MachineID config) \<and> sint (MachineID config) \<le> 1023)"
      using machine_ok_iff [of "MachineID config"] by blast
    ultimately show ?thesis
      by auto
  next
    case False
    then have ok: "0 \<le> sint (MachineID config) \<and> sint (MachineID config) \<le> 1023"
      using machine_ok_iff [of "MachineID config"] by simp
    show ?thesis
    proof (cases "resolveStartTime env config")
      case (Inl e)
      then have "e \<noteq> StartTimeInFuture"
        by (auto simp add: resolveStartTime_def split: if_splits option.splits)
      with False Inl show ?thesis by (simp add: Init_def)
    next
      case (Inr start)
      with False ok show ?thesis by (simp add: Init_def word_sless_alt)
    qed
  qed
next
  assume "StartTime config = []"
  then show "resolveStartTime env config = Inr 1672502400000"
    by (simp add: resolveStartTime_def defaultStartTime_def)
next
  assume "fst (Init env now config g) \<noteq> None"
  then show "snd (Init env now config g) = g"
    by (rule Init_failure_keeps)
qed

theorem Init_future_epoch_witness:
  "resolveStartTime \<lparr>LoadLocation = (\<lambda>name. Some (Location name)),
                      ParseInLocation = (\<lambda>layout v loc. Some 4070880000000)\<rparr>
      \<lparr>MachineID = 7, StartTime = ''2099-01-01''\<rparr> = Inr 4070880000000
   \<and> sint (1700000000000 :: int64) < sint (4070880000000 :: int64)
   \<and> Init \<lparr>LoadLocation = (\<lambda>name. Some (Location name)),
            ParseInLocation = (\<lambda>layout v loc. Some 4070880000000)\<rparr>
        1700000000000 \<lparr>MachineID = 7, StartTime = ''2099-01-01''\<rparr>
        (Some \<lparr>startTime = 1672502400000, machineID = 3, lastTimestamp = 1690000000000, sequence = 9\<rparr>)
      = (Some StartTimeInFuture,
         Some \<lparr>startTime = 1672502400000, machineID = 3, lastTimestamp = 1690000000000, sequence = 9\<rparr>)
   \<and> resolveStartTime \<lparr>LoadLocation = (\<lambda>name. Some (Location name)),
                        ParseInLocation = (\<lambda>layout v loc. Some 4070880000000)\<rparr>
      \<lparr>MachineID = 7, StartTime = []\<rparr> = Inr 1672502400000"
proof -
  let ?env = "\<lparr>LoadLocation = (\<lambda>name. Some (Location name)),
               ParseInLocation = (\<lambda>layout v loc. Some 4070880000000)\<rparr>"
  let ?cfg = "\<lparr>MachineID = 7, StartTime = ''2099-01-01''\<rparr>"
  let ?g = "Some \<lparr>startTime = 1672502400000, machineID = 3, lastTimestamp = 1690000000000, sequence = 9\<rparr>"
  have r: "resolveStartTime ?env ?cfg = Inr 4070880000000"
    by (simp add: resolveStartTime_def)
  have l: "sint (1700000000000 :: int64) < sint (4070880000000 :: int64)"
    by simp
  have m: "0 \<le> sint (MachineID ?cfg) \<and> sint (MachineID ?cfg) \<le> 1023"
    by simp
  have e: "StartTime \<lparr>MachineID = 7 :: int64, StartTime = []\<rparr> = []"
    by simp
  from r l m have "fst (Init ?env 1700000000000 ?cfg ?g) = Some StartTimeInFuture"
    using Init_future_epoch [where env = ?env and now = 1700000000000 and config = ?cfg and g = ?g] by blast
  moreover from this have "snd (Init ?env 1700000000000 ?cfg ?g) = ?g"
    using Init_future_epoch [where env = ?env and now = 1700000000000 and config = ?cfg and g = ?g] by simp
  ultimately have "Init ?env 1700000000000 ?cfg ?g = (Some StartTimeInFuture, ?g)"
    by (simp add: prod_eq_iff)
  moreover from e have "resolveStartTime ?env \<lparr>MachineID = 7, StartTime = []\<rparr> = Inr 1672502400000"
    using Init_future_epoch [where config = "\<lparr>MachineID = 7, StartTime = []\<rparr>" and env = ?env] by blast
  ultimately show ?thesis using r l by blast
qed

text \<open>
  C9. With the machine ID and the sequence in their ranges and the offset of the call's
  clock reading from the epoch in \<open>[0, 2^41)\<close>, the identifier that \<open>nextID\<close> returns is
  non-negative as a signed 64-bit integer: bit 63 is clear, and its value is the sum of
  the three fields at their positions.
\<close>

theorem nextID_sign_bit:
  assumes "fieldsInRange s" and "nextID s clk = Some (i, s', clk')"
    and "inLifetime s (lastTimestamp s')"
  shows "0 \<le>s i \<and> \<not> bit i 63
     \<and> sint i = (sint (lastTimestamp s') - sint (startTime s)) * 2 ^ 22
                 + sint (machineID s) * 2 ^ 12 + sint (sequence s')"
proof -
  note step = nextID_step [OF assms(1,2)]
  from step(3) assms(3) have life: "inLifetime s' (lastTimestamp s')"
    by (simp add: inLifetime_def timestampOffset_def)
  from id_stamp [OF step(1) life] step(7) have v: "sint i = stamp s'"
    by simp
  from step(1) life have "0 \<le> stamp s'"
    by (simp add: stamp_def fieldsInRange_def inLifetime_def word_sle_eq)
  with v have nonneg: "0 \<le> sint i" by simp
  then have "0 \<le>s i" by (simp add: word_sle_eq)
  moreover from nonneg have "\<not> bit i 63"
    using bit_last_iff [of i] by simp
  moreover from v step(3,4) have "sint i = (sint (lastTimestamp s') - sint (startTime s)) * 2 ^ 22
                 + sint (machineID s) * 2 ^ 12 + sint (sequence s')"
    by (simp add: stamp_def timestampOffset_def)
  ultimately show ?thesis by simp
qed

theorem nextID_sign_bit_witness:
  "fieldsInRange \<lparr>startTime = 1672502400000, machineID = 1023, lastTimestamp = 3871525655551, sequence = 4094\<rparr>
   \<and> nextID \<lparr>startTime = 1672502400000, machineID = 1023, lastTimestamp = 3871525655551, sequence = 4094\<rparr>
        [3871525655551]
      = Some (9223372036854775807,
              \<lparr>startTime = 1672502400000, machineID = 1023, lastTimestamp = 3871525655551, sequence = 4095\<rparr>,
              [])
   \<and> inLifetime \<lparr>startTime = 1672502400000, machineID = 1023, lastTimestamp = 3871525655551, sequence = 4094\<rparr>
        3871525655551
   \<and> (0 :: int64) \<le>s 9223372036854775807
   \<and> \<not> bit (9223372036854775807 :: int64) 63"
proof -
  let ?s = "\<lparr>startTime = 1672502400000, machineID = 1023, lastTimestamp = 3871525655551, sequence = 4094\<rparr>"
  let ?s' = "\<lparr>startTime = 1672502400000, machineID = 1023, lastTimestamp = 3871525655551, sequence = 4095\<rparr>"
  have ok: "fieldsInRange ?s"
    by (simp add: fieldsInRange_def word_sle_eq)
  have call: "nextID ?s [3871525655551] = Some (9223372036854775807, ?s', [])"
    by code_simp
  have life: "inLifetime ?s (lastTimestamp ?s')"
    by (simp add: inLifetime_def timestampOffset_def timestampBits_def)
  from nextID_sign_bit [OF ok call life] ok call life show ?thesis
    by simp
qed



end
